theory Spec2Isabelle
  imports Main "HOL-Library.Word" "HOL-Library.Monad_Syntax"
begin

section \<open>Chunked source compression (js/src/vm/Compression.cpp)\<close>

text \<open>
  The development embeds \<^verbatim>\<open>js/src/vm/Compression.cpp\<close>: the \<^verbatim>\<open>Compressor\<close> class
  (constructor, \<^verbatim>\<open>init\<close>, \<^verbatim>\<open>setOutput\<close>, \<^verbatim>\<open>compressMore\<close> with its zlib and
  zstd arms, \<^verbatim>\<open>totalBytesNeeded\<close>, \<^verbatim>\<open>finish\<close>) and the two decoders
  \<^verbatim>\<open>js::DecompressString\<close> and \<^verbatim>\<open>js::DecompressStringChunk\<close>.

  Conventions.
  \<^item> Memory regions (the input, the output buffer, the container) are byte lists; a
    pointer into a region is an offset. A read or write outside the region is undefined
    behaviour in C++ and has the value \<open>None\<close> here.
  \<^item> Every function returns an \<open>option\<close>: \<open>None\<close> stands for an abort (a failed
    \<^verbatim>\<open>MOZ_RELEASE_ASSERT\<close>, a failed \<^verbatim>\<open>MOZ_ASSERT\<close> in a debug build) or for
    undefined behaviour.
  \<^item> zlib and zstd are libraries outside the repository. They are parameters of the
    model: records of functions over an abstract stream state. A library call that
    consumes more than it was offered, or writes more than the room it was given, breaks
    the library's own interface and has the value \<open>None\<close> as well.
\<close>

subsection \<open>Bytes and memory\<close>

type_synonym byte = "8 word"
type_synonym uint16_t = "16 word"
type_synonym uint32_t = "32 word"

text \<open>Little-endian images of 16 and 32 bit values, and their readers.\<close>

definition le16 :: "uint16_t \<Rightarrow> byte list" where
  "le16 w = [ucast w, ucast (drop_bit 8 w)]"

definition le32 :: "uint32_t \<Rightarrow> byte list" where
  "le32 w = [ucast w, ucast (drop_bit 8 w), ucast (drop_bit 16 w), ucast (drop_bit 24 w)]"

definition rd16 :: "byte list \<Rightarrow> uint16_t" where
  "rd16 bs = word_of_nat (unat (bs ! 0) + 256 * unat (bs ! 1))"

definition rd32 :: "byte list \<Rightarrow> uint32_t" where
  "rd32 bs = word_of_nat (unat (bs ! 0) + 256 * unat (bs ! 1) + 65536 * unat (bs ! 2)
                          + 16777216 * unat (bs ! 3))"

text \<open>\<open>load mem off n\<close> reads \<open>n\<close> bytes at offset \<open>off\<close>; \<open>store mem off bs\<close>
  overwrites \<open>length bs\<close> bytes at \<open>off\<close>. Both are undefined outside the region.\<close>

definition load :: "byte list \<Rightarrow> nat \<Rightarrow> nat \<Rightarrow> byte list option" where
  "load mem off n = (if off + n \<le> length mem then Some (take n (drop off mem)) else None)"

definition store :: "byte list \<Rightarrow> nat \<Rightarrow> byte list \<Rightarrow> byte list option" where
  "store mem off bs =
     (if off + length bs \<le> length mem
      then Some (take off mem @ bs @ drop (off + length bs) mem)
      else None)"

definition load_u32 :: "byte list \<Rightarrow> nat \<Rightarrow> uint32_t option" where
  "load_u32 mem off = map_option rd32 (load mem off 4)"

text \<open>Unsigned C arithmetic: \<^verbatim>\<open>size_t\<close> subtraction wraps at \<open>2 ^ 64\<close>, a value
  stored in zlib's \<^verbatim>\<open>uInt\<close> or in a \<^verbatim>\<open>uint32_t\<close> is cut to 32 bits.\<close>

definition sub_size_t :: "nat \<Rightarrow> nat \<Rightarrow> nat" where
  "sub_size_t a b = nat ((int a - int b) mod 2 ^ 64)"

definition to_uInt :: "nat \<Rightarrow> nat" where
  "to_uInt n = n mod 2 ^ 32"

subsection \<open>Constants\<close>

definition UINT32_MAX :: nat where
  "UINT32_MAX = 4294967295"

text \<open>Modelled from the spec: \<^verbatim>\<open>vm/Compression.h\<close> is not among the sources. The spec
  gives the header as 8 bytes (\<open>compressedBytes\<close> 4, \<open>algorithm\<close> 1, \<open>level\<close> 1,
  \<open>reserved\<close> 2), the chunk size as 65536, the algorithm tags as 0 (deflate) and 1
  (zstd), and the statuses of \<^verbatim>\<open>compressMore\<close>.\<close>

definition sizeof_CompressedDataHeader :: nat where
  "sizeof_CompressedDataHeader = 8"

definition CHUNK_SIZE :: nat where
  "CHUNK_SIZE = 65536"

definition ZLIB :: byte where
  "ZLIB = 0"

definition ZSTD :: byte where
  "ZSTD = 1"

datatype Status = MOREOUTPUT | DONE | CONTINUE | OOM

record CompressedDataHeader =
  compressedBytes :: uint32_t
  algorithm :: byte
  level :: byte
  reserved :: uint16_t

text \<open>The header as it lies in memory (\<^verbatim>\<open>reinterpret_cast\<close> of the first 8 bytes), all
  integers little-endian as the spec states.\<close>

definition header_bytes :: "CompressedDataHeader \<Rightarrow> byte list" where
  "header_bytes h = le32 (compressedBytes h) @ [algorithm h, level h] @ le16 (reserved h)"

definition read_header :: "byte list \<Rightarrow> CompressedDataHeader option" where
  "read_header mem =
     map_option
       (\<lambda>bs. \<lparr>compressedBytes = rd32 (take 4 bs), algorithm = bs ! 4, level = bs ! 5,
              reserved = rd16 (drop 6 bs)\<rparr>)
       (load mem 0 sizeof_CompressedDataHeader)"

text \<open>Modelled from the spec: \<^verbatim>\<open>AlignBytes\<close> (\<^verbatim>\<open>util/Memory.h\<close>) rounds up to the next
  multiple of the alignment (the spec's \<open>align4\<close>), \<^verbatim>\<open>sizeOfChunkOffsets\<close> is 4 bytes per
  entry, and \<^verbatim>\<open>chunkSize\<close> is the length of chunk \<open>i\<close>, which covers the input bytes
  \<open>[i * C, min ((i + 1) * C) L)\<close>.\<close>

definition AlignBytes :: "nat \<Rightarrow> nat \<Rightarrow> nat" where
  "AlignBytes bytes alignment = bytes + (alignment - bytes mod alignment) mod alignment"

text \<open>The constants of \<^verbatim>\<open>zlib.h\<close> the code names, and the window bits
  \<^verbatim>\<open>inflateInit\<close> passes to \<^verbatim>\<open>inflateInit2\<close> (zlib's \<^verbatim>\<open>DEF_WBITS\<close>).\<close>

definition Z_OK :: int where "Z_OK = 0"
definition Z_STREAM_END :: int where "Z_STREAM_END = 1"
definition Z_DATA_ERROR :: int where "Z_DATA_ERROR = - 3"
definition Z_MEM_ERROR :: int where "Z_MEM_ERROR = - 4"
definition Z_BUF_ERROR :: int where "Z_BUF_ERROR = - 5"
definition Z_NO_FLUSH :: int where "Z_NO_FLUSH = 0"
definition Z_FULL_FLUSH :: int where "Z_FULL_FLUSH = 3"
definition Z_FINISH :: int where "Z_FINISH = 4"
definition Z_BEST_SPEED :: int where "Z_BEST_SPEED = 1"
definition Z_DEFLATED :: int where "Z_DEFLATED = 8"
definition Z_DEFAULT_STRATEGY :: int where "Z_DEFAULT_STRATEGY = 0"
definition DEF_WBITS :: int where "DEF_WBITS = 15"

text \<open>\<^verbatim>\<open>static const int WindowBits = -15;\<close> "Passing -15 [...] forces 'raw deflate' (no
  zlib header or trailer). Raw deflate is necessary for chunked decompression."\<close>

definition WindowBits :: int where
  "WindowBits = - 15"

subsection \<open>The build and the libraries\<close>

text \<open>\<open>DEBUG\<close> says whether \<^verbatim>\<open>MOZ_ASSERT\<close> is compiled in, \<open>USE_LIBZ_RS\<close> is the
  preprocessor switch \<^verbatim>\<open>init\<close> reads, and \<open>MAX_INPUT_SIZE\<close> is the class constant of
  the missing \<^verbatim>\<open>vm/Compression.h\<close>, whose value the spec does not give.\<close>

record config =
  DEBUG :: bool
  USE_LIBZ_RS :: bool
  MAX_INPUT_SIZE :: nat

definition MOZ_ASSERT :: "config \<Rightarrow> bool \<Rightarrow> unit option" where
  "MOZ_ASSERT cfg b = (if DEBUG cfg \<and> \<not> b then None else Some ())"

definition MOZ_RELEASE_ASSERT :: "bool \<Rightarrow> unit option" where
  "MOZ_RELEASE_ASSERT b = (if b then Some () else None)"

definition chunkSize :: "config \<Rightarrow> nat \<Rightarrow> nat \<Rightarrow> nat option" where
  "chunkSize cfg uncompressedBytes chunk = do {
     MOZ_ASSERT cfg (0 < uncompressedBytes);
     let startOfChunkBytes = chunk * CHUNK_SIZE;
     MOZ_ASSERT cfg (startOfChunkBytes < uncompressedBytes);
     let remaining = uncompressedBytes - startOfChunkBytes;
     Some (if remaining < CHUNK_SIZE then remaining else CHUNK_SIZE)
   }"

text \<open>
  zlib. \<open>deflateInit2 level method windowBits memLevel strategy\<close> returns the code and
  the new stream state. \<open>deflate state input avail_out flush\<close> is given the
  \<open>avail_in\<close> bytes at \<open>next_in\<close> and the room at \<open>next_out\<close>; it returns the code,
  how many input bytes it consumed, the bytes it wrote, and the new state. \<open>inflate\<close>
  likewise. A state returned with a failure code is never used.
\<close>

record ('d, 'i) zlib_api =
  deflateInit2 :: "int \<Rightarrow> int \<Rightarrow> int \<Rightarrow> int \<Rightarrow> int \<Rightarrow> int \<times> 'd"
  deflate :: "'d \<Rightarrow> byte list \<Rightarrow> nat \<Rightarrow> int \<Rightarrow> int \<times> nat \<times> byte list \<times> 'd"
  inflateInit2 :: "int \<Rightarrow> int \<times> 'i"
  inflate :: "'i \<Rightarrow> byte list \<Rightarrow> nat \<Rightarrow> int \<Rightarrow> int \<times> nat \<times> byte list \<times> 'i"
  inflateEnd :: "'i \<Rightarrow> int"

text \<open>\<^verbatim>\<open>inflateInit(&zs)\<close> is zlib's macro for \<^verbatim>\<open>inflateInit2\<close> with the default window
  bits, that is, with the zlib wrapper (header and trailer) expected.\<close>

definition inflateInit :: "('d, 'i) zlib_api \<Rightarrow> int \<times> 'i" where
  "inflateInit zl = inflateInit2 zl DEF_WBITS"

text \<open>
  zstd. \<open>ZSTD_createCStream\<close> is \<open>None\<close> for a null result. The streaming calls are
  given the stream, the room left in the output buffer (\<open>size - pos\<close>) and, for
  \<open>ZSTD_compressStream\<close>, the input span; they return the \<^verbatim>\<open>size_t\<close> result,
  the bytes written (and consumed). \<open>ZSTD_decompress dstCapacity src\<close> returns the
  result and the bytes written.
\<close>

record 'c zstd_api =
  ZSTD_createCStream :: "'c option"
  ZSTD_initCStream :: "'c \<Rightarrow> int \<Rightarrow> nat \<times> 'c"
  ZSTD_isError :: "nat \<Rightarrow> bool"
  ZSTD_compressStream :: "'c \<Rightarrow> nat \<Rightarrow> byte list \<Rightarrow> nat \<times> nat \<times> byte list \<times> 'c"
  ZSTD_flushStream :: "'c \<Rightarrow> nat \<Rightarrow> nat \<times> byte list \<times> 'c"
  ZSTD_endStream :: "'c \<Rightarrow> nat \<Rightarrow> nat \<times> byte list \<times> 'c"
  ZSTD_decompress :: "nat \<Rightarrow> byte list \<Rightarrow> nat \<times> byte list"

subsection \<open>The compressor\<close>

text \<open>
  The members of \<^verbatim>\<open>Compressor\<close>. \<open>algorithm_m\<close> and \<open>level_m\<close> are the
  members \<^verbatim>\<open>algorithm_\<close> and \<^verbatim>\<open>level_\<close> (a name cannot end in an underscore here).
  \<open>zs_next_in\<close> is \<^verbatim>\<open>zs.next_in - inp\<close>;
  \<open>zs_next_out\<close> and \<open>zstdOutput_dst\<close> are offsets into \<open>out_mem\<close>, the caller's
  buffer that \<^verbatim>\<open>setOutput\<close> bound (\<open>None\<close> is \<^verbatim>\<open>nullptr\<close>). \<open>zs_state\<close> and
  \<open>zstdCStream\<close> are \<open>None\<close> until \<^verbatim>\<open>init\<close> has created the stream; a library
  call on a stream that was never created is undefined here. The counters are natural
  numbers: the widths of the members are in the missing header, and only the widths the
  source itself shows (\<^verbatim>\<open>uInt left\<close>, zlib's \<^verbatim>\<open>uInt avail_in\<close>, the 32-bit header
  field and offsets) are cut explicitly. The members the
  constructor leaves uninitialised on one arm are never read on that arm; they start as
  zero here.
\<close>

record ('d, 'c) Compressor =
  algorithm_m :: byte
  level_m :: byte
  inp :: "byte list"
  inplen :: nat
  initialized :: bool
  finished :: bool
  currentChunkSize :: nat
  outbytes :: nat
  chunkOffsets :: "uint32_t list"
  zs_next_in :: nat
  zs_avail_in :: nat
  zs_next_out :: "nat option"
  zs_avail_out :: nat
  zs_state :: "'d option"
  zstdCStream :: "'c option"
  zstdOutput_dst :: nat
  zstdOutput_size :: nat
  zstdOutput_pos :: nat
  zstdInputPos :: nat
  out_mem :: "byte list"

definition Compressor_ctor ::
  "config \<Rightarrow> byte list \<Rightarrow> nat \<Rightarrow> byte \<Rightarrow> byte \<Rightarrow> ('d, 'c) Compressor option" where
  "Compressor_ctor cfg input input_len alg lvl = do {
     MOZ_ASSERT cfg (0 < input_len);
     Some \<lparr>algorithm_m = alg, level_m = lvl, inp = input, inplen = input_len,
           initialized = False, finished = False, currentChunkSize = 0,
           outbytes = sizeof_CompressedDataHeader, chunkOffsets = [],
           zs_next_in = 0, zs_avail_in = 0, zs_next_out = None, zs_avail_out = 0,
           zs_state = None, zstdCStream = None,
           zstdOutput_dst = 0, zstdOutput_size = 0, zstdOutput_pos = 0,
           zstdInputPos = 0, out_mem = []\<rparr>
   }"

definition init ::
  "config \<Rightarrow> ('d, 'i) zlib_api \<Rightarrow> 'c zstd_api \<Rightarrow> ('d, 'c) Compressor
     \<Rightarrow> (bool \<times> ('d, 'c) Compressor) option" where
  "init cfg zl zd c =
     (if inplen c \<ge> UINT32_MAX then Some (False, c)
      else if algorithm_m c = ZLIB then do {
        let zlibLevel = (if level_m c = 0
                         then (if USE_LIBZ_RS cfg then 2 else Z_BEST_SPEED)
                         else uint (level_m c));
        let (ret, st) = deflateInit2 zl zlibLevel Z_DEFLATED WindowBits 8 Z_DEFAULT_STRATEGY;
        if ret \<noteq> Z_OK then do {
          MOZ_ASSERT cfg (ret = Z_MEM_ERROR);
          Some (False, c)
        } else Some (True, c\<lparr>zs_state := Some st, initialized := True\<rparr>)
      }
      else if algorithm_m c = ZSTD then
        (case ZSTD_createCStream zd of
           None \<Rightarrow> Some (False, c\<lparr>zstdCStream := None\<rparr>)
         | Some cs \<Rightarrow>
             let zstdLevel = (if level_m c = 0 then 3 else uint (level_m c));
                 (ret, cs') = ZSTD_initCStream zd cs zstdLevel
             in if ZSTD_isError zd ret then Some (False, c\<lparr>zstdCStream := None\<rparr>)
                else Some (True, c\<lparr>zstdCStream := Some cs', initialized := True\<rparr>))
      else Some (False, c))"

definition setOutput ::
  "config \<Rightarrow> ('d, 'c) Compressor \<Rightarrow> byte list \<Rightarrow> nat \<Rightarrow> ('d, 'c) Compressor option" where
  "setOutput cfg c out outlen = do {
     MOZ_ASSERT cfg (outlen > outbytes c);
     Some (if algorithm_m c = ZLIB then
             c\<lparr>out_mem := out, zs_next_out := Some (outbytes c),
               zs_avail_out := to_uInt (sub_size_t outlen (outbytes c))\<rparr>
           else if algorithm_m c = ZSTD then
             c\<lparr>out_mem := out, zstdOutput_dst := outbytes c,
               zstdOutput_size := sub_size_t outlen (outbytes c), zstdOutput_pos := 0\<rparr>
           else c)
   }"

text \<open>The effect of \<^verbatim>\<open>deflate(&zs, flush)\<close> on the members: the library reads at
  \<^verbatim>\<open>zs.next_in\<close>, writes at \<^verbatim>\<open>zs.next_out\<close> and advances both.\<close>

definition call_deflate ::
  "('d, 'i) zlib_api \<Rightarrow> ('d, 'c) Compressor \<Rightarrow> int \<Rightarrow> (int \<times> ('d, 'c) Compressor) option" where
  "call_deflate zl c flush = do {
     input \<leftarrow> load (inp c) (zs_next_in c) (zs_avail_in c);
     nout \<leftarrow> zs_next_out c;
     st \<leftarrow> zs_state c;
     let (ret, consumed, produced, st') = deflate zl st input (zs_avail_out c) flush;
     if consumed \<le> zs_avail_in c \<and> length produced \<le> zs_avail_out c then do {
       mem \<leftarrow> store (out_mem c) nout produced;
       Some (ret, c\<lparr>zs_next_in := zs_next_in c + consumed,
                    zs_avail_in := zs_avail_in c - consumed,
                    zs_next_out := Some (nout + length produced),
                    zs_avail_out := zs_avail_out c - length produced,
                    zs_state := Some st', out_mem := mem\<rparr>)
     } else None
   }"

text \<open>\<^verbatim>\<open>compressMoreZlib\<close> in three parts, in the order of the source: the choice of
  the step (up to \<^verbatim>\<open>bool done = zs.avail_in == left\<close>), which yields the new
  \<^verbatim>\<open>zs.avail_in\<close>, \<open>flush\<close> and \<open>done\<close>; the call of \<^verbatim>\<open>deflate\<close>; and the
  rest of the function, from \<^verbatim>\<open>outbytes += zs.next_out - oldout\<close> on.\<close>

definition compressMoreZlib_plan ::
  "config \<Rightarrow> ('d, 'c) Compressor \<Rightarrow> (nat \<times> bool \<times> bool) option" where
  "compressMoreZlib_plan cfg c = do {
     MOZ_ASSERT cfg (zs_next_out c \<noteq> None);
     let left = to_uInt (sub_size_t (inplen c) (zs_next_in c));
     let avail = (if left \<le> MAX_INPUT_SIZE cfg then left
                  else if zs_avail_in c = 0 then to_uInt (MAX_INPUT_SIZE cfg)
                  else zs_avail_in c);
     MOZ_ASSERT cfg (currentChunkSize c \<le> CHUNK_SIZE);
     let flush = (currentChunkSize c + avail \<ge> CHUNK_SIZE);
     let avail = (if flush then to_uInt (sub_size_t CHUNK_SIZE (currentChunkSize c)) else avail);
     MOZ_ASSERT cfg (if flush then currentChunkSize c + avail = CHUNK_SIZE else True);
     MOZ_ASSERT cfg (avail \<le> left);
     Some (avail, flush, avail = left)
   }"

definition compressMoreZlib_tail ::
  "config \<Rightarrow> bool \<Rightarrow> bool \<Rightarrow> bool \<Rightarrow> int \<Rightarrow> nat \<Rightarrow> nat \<Rightarrow> ('d, 'c) Compressor
     \<Rightarrow> (Status \<times> ('d, 'c) Compressor) option" where
  "compressMoreZlib_tail cfg append_ok done flush ret oldin oldout c1 = do {
     newout \<leftarrow> zs_next_out c1;
     let c2 = c1\<lparr>outbytes := outbytes c1 + (newout - oldout),
                 currentChunkSize := currentChunkSize c1 + (zs_next_in c1 - oldin)\<rparr>;
     MOZ_ASSERT cfg (currentChunkSize c2 \<le> CHUNK_SIZE);
     if ret = Z_MEM_ERROR then Some (OOM, c2\<lparr>zs_avail_out := 0\<rparr>)
     else if ret = Z_BUF_ERROR \<or> (ret = Z_OK \<and> zs_avail_out c2 = 0) then do {
       MOZ_ASSERT cfg (zs_avail_out c2 = 0);
       Some (MOREOUTPUT, c2)
     }
     else if done \<or> currentChunkSize c2 = CHUNK_SIZE then do {
       MOZ_ASSERT cfg (if \<not> done then flush else True);
       (if DEBUG cfg then do {
          cs \<leftarrow> chunkSize cfg (inplen c2) (length (chunkOffsets c2));
          MOZ_ASSERT cfg (cs = currentChunkSize c2)
        } else Some ());
       if \<not> append_ok then Some (OOM, c2)
       else do {
         let c3 = c2\<lparr>chunkOffsets := chunkOffsets c2 @ [word_of_nat (outbytes c2)],
                     currentChunkSize := 0\<rparr>;
         MOZ_ASSERT cfg (if done
                         then length (chunkOffsets c3) = (inplen c3 - 1) div CHUNK_SIZE + 1
                         else True);
         MOZ_ASSERT cfg (if \<not> done then ret = Z_OK else True);
         MOZ_ASSERT cfg (if done then ret = Z_STREAM_END else True);
         Some (if done then DONE else CONTINUE, c3)
       }
     }
     else do {
       MOZ_ASSERT cfg (if \<not> done then ret = Z_OK else True);
       MOZ_ASSERT cfg (if done then ret = Z_STREAM_END else True);
       Some (if done then DONE else CONTINUE, c2)
     }
   }"

definition compressMoreZlib ::
  "config \<Rightarrow> ('d, 'i) zlib_api \<Rightarrow> bool \<Rightarrow> ('d, 'c) Compressor
     \<Rightarrow> (Status \<times> ('d, 'c) Compressor) option" where
  "compressMoreZlib cfg zl append_ok c = do {
     (avail, flush, done) \<leftarrow> compressMoreZlib_plan cfg c;
     let oldin = zs_next_in c;
     oldout \<leftarrow> zs_next_out c;
     (ret, c1) \<leftarrow> call_deflate zl (c\<lparr>zs_avail_in := avail\<rparr>)
                    (if done then Z_FINISH else if flush then Z_FULL_FLUSH else Z_NO_FLUSH);
     compressMoreZlib_tail cfg append_ok done flush ret oldin oldout c1
   }"

text \<open>The effect of the zstd streaming calls on the members: the library writes at
  \<^verbatim>\<open>zstdOutput.dst + zstdOutput.pos\<close> and advances \<^verbatim>\<open>zstdOutput.pos\<close>; a null stream
  is dereferenced.\<close>

definition zstd_written ::
  "('d, 'c) Compressor \<Rightarrow> byte list \<Rightarrow> 'c \<Rightarrow> ('d, 'c) Compressor option" where
  "zstd_written c produced cs =
     (if zstdOutput_pos c \<le> zstdOutput_size c
         \<and> length produced \<le> zstdOutput_size c - zstdOutput_pos c
      then do {
        mem \<leftarrow> store (out_mem c) (zstdOutput_dst c + zstdOutput_pos c) produced;
        Some (c\<lparr>zstdCStream := Some cs, zstdOutput_pos := zstdOutput_pos c + length produced,
                out_mem := mem\<rparr>)
      } else None)"

definition call_ZSTD_compressStream ::
  "'c zstd_api \<Rightarrow> ('d, 'c) Compressor \<Rightarrow> byte list
     \<Rightarrow> (nat \<times> nat \<times> ('d, 'c) Compressor) option" where
  "call_ZSTD_compressStream zd c src = do {
     cs \<leftarrow> zstdCStream c;
     let (ret, consumed, produced, cs') =
       ZSTD_compressStream zd cs (zstdOutput_size c - zstdOutput_pos c) src;
     if consumed \<le> length src then do {
       c' \<leftarrow> zstd_written c produced cs';
       Some (ret, consumed, c')
     } else None
   }"

definition call_ZSTD_flushStream ::
  "'c zstd_api \<Rightarrow> ('d, 'c) Compressor \<Rightarrow> (nat \<times> ('d, 'c) Compressor) option" where
  "call_ZSTD_flushStream zd c = do {
     cs \<leftarrow> zstdCStream c;
     let (ret, produced, cs') = ZSTD_flushStream zd cs (zstdOutput_size c - zstdOutput_pos c);
     c' \<leftarrow> zstd_written c produced cs';
     Some (ret, c')
   }"

definition call_ZSTD_endStream ::
  "'c zstd_api \<Rightarrow> ('d, 'c) Compressor \<Rightarrow> (nat \<times> ('d, 'c) Compressor) option" where
  "call_ZSTD_endStream zd c = do {
     cs \<leftarrow> zstdCStream c;
     let (ret, produced, cs') = ZSTD_endStream zd cs (zstdOutput_size c - zstdOutput_pos c);
     c' \<leftarrow> zstd_written c produced cs';
     Some (ret, c')
   }"

text \<open>\<^verbatim>\<open>compressMoreZstd\<close> in three parts as well: the choice of the step (up to
  \<^verbatim>\<open>bool done = inputSize == left\<close>), which yields \<open>inputSize\<close>, \<open>flush\<close> and
  \<open>done\<close>; the backend calls; and the rest of the function, from the last
  \<^verbatim>\<open>if (ZSTD_isError(ret))\<close> on, given the last result \<open>ret\<close> and the final
  \<^verbatim>\<open>zstdInput.pos\<close>.\<close>

definition compressMoreZstd_plan ::
  "config \<Rightarrow> ('d, 'c) Compressor \<Rightarrow> (nat \<times> bool \<times> bool) option" where
  "compressMoreZstd_plan cfg c = do {
     let left = sub_size_t (inplen c) (zstdInputPos c);
     let inputSize = (if left \<le> MAX_INPUT_SIZE cfg then left else MAX_INPUT_SIZE cfg);
     MOZ_ASSERT cfg (currentChunkSize c \<le> CHUNK_SIZE);
     let flush = (currentChunkSize c + inputSize \<ge> CHUNK_SIZE);
     let inputSize = (if flush then sub_size_t CHUNK_SIZE (currentChunkSize c) else inputSize);
     MOZ_ASSERT cfg (if flush then currentChunkSize c + inputSize = CHUNK_SIZE else True);
     MOZ_ASSERT cfg (inputSize \<le> left);
     Some (inputSize, flush, inputSize = left)
   }"

definition compressMoreZstd_tail ::
  "config \<Rightarrow> 'c zstd_api \<Rightarrow> bool \<Rightarrow> bool \<Rightarrow> bool \<Rightarrow> nat \<Rightarrow> nat \<Rightarrow> nat
     \<Rightarrow> ('d, 'c) Compressor \<Rightarrow> (Status \<times> ('d, 'c) Compressor) option" where
  "compressMoreZstd_tail cfg zd append_ok done flush oldOutputPos ret zstdInput_pos c1 =
     (if ZSTD_isError zd ret then Some (OOM, c1)
      else do {
        let c2 = c1\<lparr>outbytes := outbytes c1 + sub_size_t (zstdOutput_pos c1) oldOutputPos,
                    currentChunkSize := currentChunkSize c1 + zstdInput_pos,
                    zstdInputPos := zstdInputPos c1 + zstdInput_pos\<rparr>;
        MOZ_ASSERT cfg (currentChunkSize c2 \<le> CHUNK_SIZE);
        if zstdOutput_pos c2 = zstdOutput_size c2 \<and> \<not> done then Some (MOREOUTPUT, c2)
        else if done \<or> currentChunkSize c2 = CHUNK_SIZE then do {
          MOZ_ASSERT cfg (if \<not> done then flush else True);
          (if DEBUG cfg then do {
             cs \<leftarrow> chunkSize cfg (inplen c2) (length (chunkOffsets c2));
             MOZ_ASSERT cfg (cs = currentChunkSize c2)
           } else Some ());
          if \<not> append_ok then Some (OOM, c2)
          else do {
            let c3 = c2\<lparr>chunkOffsets := chunkOffsets c2 @ [word_of_nat (outbytes c2)],
                        currentChunkSize := 0\<rparr>;
            MOZ_ASSERT cfg (if done
                            then length (chunkOffsets c3) = (inplen c3 - 1) div CHUNK_SIZE + 1
                            else True);
            Some (if done \<and> ret = 0 then DONE else if done then DONE else CONTINUE, c3)
          }
        }
        else Some (if done \<and> ret = 0 then DONE else if done then DONE else CONTINUE, c2)
      })"

definition compressMoreZstd ::
  "config \<Rightarrow> 'c zstd_api \<Rightarrow> bool \<Rightarrow> ('d, 'c) Compressor
     \<Rightarrow> (Status \<times> ('d, 'c) Compressor) option" where
  "compressMoreZstd cfg zd append_ok c = do {
     (inputSize, flush, done) \<leftarrow> compressMoreZstd_plan cfg c;
     src \<leftarrow> load (inp c) (zstdInputPos c) inputSize;
     let oldOutputPos = zstdOutput_pos c;
     if done then
       (if inputSize > 0 then do {
          (ret, ipos, c1) \<leftarrow> call_ZSTD_compressStream zd c src;
          if ZSTD_isError zd ret then Some (OOM, c1)
          else do {
            (ret, c2) \<leftarrow> call_ZSTD_endStream zd c1;
            compressMoreZstd_tail cfg zd append_ok done flush oldOutputPos ret ipos c2
          }
        } else do {
          (ret, c2) \<leftarrow> call_ZSTD_endStream zd c;
          compressMoreZstd_tail cfg zd append_ok done flush oldOutputPos ret 0 c2
        })
     else if flush then
       (if inputSize > 0 then do {
          (ret, ipos, c1) \<leftarrow> call_ZSTD_compressStream zd c src;
          if ZSTD_isError zd ret then Some (OOM, c1)
          else do {
            (ret, c2) \<leftarrow> call_ZSTD_flushStream zd c1;
            compressMoreZstd_tail cfg zd append_ok done flush oldOutputPos ret ipos c2
          }
        } else do {
          (ret, c2) \<leftarrow> call_ZSTD_flushStream zd c;
          compressMoreZstd_tail cfg zd append_ok done flush oldOutputPos ret 0 c2
        })
     else do {
       (ret, ipos, c1) \<leftarrow> call_ZSTD_compressStream zd c src;
       compressMoreZstd_tail cfg zd append_ok done flush oldOutputPos ret ipos c1
     }
   }"

definition compressMore ::
  "config \<Rightarrow> ('d, 'i) zlib_api \<Rightarrow> 'c zstd_api \<Rightarrow> bool \<Rightarrow> ('d, 'c) Compressor
     \<Rightarrow> (Status \<times> ('d, 'c) Compressor) option" where
  "compressMore cfg zl zd append_ok c =
     (if algorithm_m c = ZLIB then compressMoreZlib cfg zl append_ok c
      else if algorithm_m c = ZSTD then compressMoreZstd cfg zd append_ok c
      else Some (OOM, c))"

definition sizeOfChunkOffsets :: "('d, 'c) Compressor \<Rightarrow> nat" where
  "sizeOfChunkOffsets c = length (chunkOffsets c) * 4"

definition totalBytesNeeded :: "('d, 'c) Compressor \<Rightarrow> nat" where
  "totalBytesNeeded c = AlignBytes (outbytes c) 4 + sizeOfChunkOffsets c"

text \<open>\<^verbatim>\<open>finish(dest, destBytes)\<close>: \<open>dest\<close> is the caller's buffer, which already holds
  the payload; the result is the buffer with the header, the zeroed padding and the chunk
  offsets written.\<close>

definition finish ::
  "config \<Rightarrow> ('d, 'c) Compressor \<Rightarrow> byte list \<Rightarrow> nat
     \<Rightarrow> (byte list \<times> ('d, 'c) Compressor) option" where
  "finish cfg c dest destBytes = do {
     MOZ_ASSERT cfg (chunkOffsets c \<noteq> []);
     dest1 \<leftarrow> store dest 0
       (header_bytes \<lparr>compressedBytes = word_of_nat (outbytes c), algorithm = algorithm_m c,
                      level = level_m c, reserved = 0\<rparr>);
     let outbytesAligned = AlignBytes (outbytes c) 4;
     dest2 \<leftarrow> store dest1 (outbytes c) (replicate (outbytesAligned - outbytes c) 0);
     MOZ_ASSERT cfg (destBytes = outbytesAligned + 4 * length (chunkOffsets c));
     dest3 \<leftarrow> store dest2 outbytesAligned (concat (map le32 (chunkOffsets c)));
     Some (dest3, c\<lparr>finished := True\<rparr>)
   }"

subsection \<open>The decoders\<close>

text \<open>The effect of \<^verbatim>\<open>inflate(&zs, flush)\<close> on a local stream over \<open>input\<close> with room
  \<open>avail_out\<close> at the start of \<open>out\<close>: the code, \<^verbatim>\<open>zs.avail_in\<close> and
  \<^verbatim>\<open>zs.avail_out\<close> afterwards, the output buffer, and the stream state.\<close>

definition call_inflate ::
  "('d, 'i) zlib_api \<Rightarrow> 'i \<Rightarrow> byte list \<Rightarrow> byte list \<Rightarrow> nat \<Rightarrow> int
     \<Rightarrow> (int \<times> nat \<times> nat \<times> byte list \<times> 'i) option" where
  "call_inflate zl st input out avail_out flush =
     (let (ret, consumed, produced, st') = inflate zl st input avail_out flush
      in if consumed \<le> length input \<and> length produced \<le> avail_out then do {
           out' \<leftarrow> store out 0 produced;
           Some (ret, length input - consumed, avail_out - length produced, out', st')
         } else None)"

definition DecompressString ::
  "config \<Rightarrow> ('d, 'i) zlib_api \<Rightarrow> 'c zstd_api \<Rightarrow> byte list \<Rightarrow> nat \<Rightarrow> byte list \<Rightarrow> nat
     \<Rightarrow> (bool \<times> byte list) option" where
  "DecompressString cfg zl zd inbuf inbuflen out outlen = do {
     MOZ_ASSERT cfg (inbuflen \<le> UINT32_MAX);
     if inbuflen < sizeof_CompressedDataHeader then Some (False, out)
     else do {
       header \<leftarrow> read_header inbuf;
       let alg = algorithm header;
       if alg = ZLIB then do {
         input \<leftarrow> load inbuf 0 (to_uInt inbuflen);
         MOZ_ASSERT cfg (outlen \<noteq> 0);
         let (ret, st) = inflateInit zl;
         if ret \<noteq> Z_OK then do {
           MOZ_ASSERT cfg (ret = Z_MEM_ERROR);
           Some (False, out)
         } else do {
           (ret, avail_in, avail_out, out', st') \<leftarrow>
             call_inflate zl st input out (to_uInt outlen) Z_FINISH;
           MOZ_ASSERT cfg (ret = Z_STREAM_END);
           let ret = inflateEnd zl st';
           MOZ_ASSERT cfg (ret = Z_OK);
           Some (True, out')
         }
       }
       else if alg = ZSTD then do {
         input \<leftarrow> load inbuf 0 inbuflen;
         let (result, produced) = ZSTD_decompress zd outlen input;
         if length produced \<le> outlen then do {
           out' \<leftarrow> store out 0 produced;
           Some (\<not> ZSTD_isError zd result \<and> result = outlen, out')
         } else None
       }
       else Some (False, out)
     }
   }"

text \<open>\<^verbatim>\<open>DecompressStringChunk\<close> in two parts: the reading of the header and of the chunk
  offset table (up to \<^verbatim>\<open>uint32_t compressedEnd = offsets[chunk]\<close>), which yields the
  algorithm, \<^verbatim>\<open>compressedBytes\<close>, \<^verbatim>\<open>compressedStart\<close> and \<^verbatim>\<open>compressedEnd\<close>; and
  the decoding of that range of the container.\<close>

definition DecompressStringChunk_table ::
  "byte list \<Rightarrow> nat \<Rightarrow> (byte \<times> nat \<times> uint32_t \<times> uint32_t) option" where
  "DecompressStringChunk_table inbuf chunk = do {
     header \<leftarrow> read_header inbuf;
     let alg = algorithm header;
     let compressedBytes' = unat (compressedBytes header);
     let compressedBytesAligned = AlignBytes compressedBytes' 4;
     compressedStart \<leftarrow>
       (if chunk > 0 then load_u32 inbuf (compressedBytesAligned + 4 * (chunk - 1))
        else Some (word_of_nat sizeof_CompressedDataHeader));
     compressedEnd \<leftarrow> load_u32 inbuf (compressedBytesAligned + 4 * chunk);
     Some (alg, compressedBytes', compressedStart, compressedEnd)
   }"

definition DecompressStringChunk_range ::
  "config \<Rightarrow> ('d, 'i) zlib_api \<Rightarrow> 'c zstd_api \<Rightarrow> byte list \<Rightarrow> byte \<Rightarrow> nat
     \<Rightarrow> uint32_t \<Rightarrow> uint32_t \<Rightarrow> byte list \<Rightarrow> nat \<Rightarrow> (bool \<times> byte list) option" where
  "DecompressStringChunk_range cfg zl zd inbuf alg compressedBytes' compressedStart
       compressedEnd out outlen = do {
     MOZ_ASSERT cfg (compressedStart < compressedEnd);
     MOZ_ASSERT cfg (unat compressedEnd \<le> compressedBytes');
     let lastChunk = (unat compressedEnd = compressedBytes');
     if alg = ZLIB then do {
       input \<leftarrow> load inbuf (unat compressedStart) (unat (compressedEnd - compressedStart));
       MOZ_ASSERT cfg (outlen \<noteq> 0);
       let (ret, st) = inflateInit2 zl WindowBits;
       if ret \<noteq> Z_OK then do {
         MOZ_ASSERT cfg (ret = Z_MEM_ERROR);
         Some (False, out)
       }
       else if lastChunk then do {
         (ret, avail_in, avail_out, out', st') \<leftarrow>
           call_inflate zl st input out (to_uInt outlen) Z_FINISH;
         MOZ_RELEASE_ASSERT (ret = Z_STREAM_END);
         MOZ_ASSERT cfg (avail_in = 0);
         MOZ_ASSERT cfg (avail_out = 0);
         MOZ_ASSERT cfg (inflateEnd zl st' = Z_OK);
         Some (True, out')
       }
       else do {
         (ret, avail_in, avail_out, out', st') \<leftarrow>
           call_inflate zl st input out (to_uInt outlen) Z_NO_FLUSH;
         if ret = Z_MEM_ERROR then do {
           MOZ_ASSERT cfg (inflateEnd zl st' = Z_OK);
           Some (False, out')
         } else do {
           MOZ_RELEASE_ASSERT (ret = Z_OK);
           MOZ_ASSERT cfg (avail_in = 0);
           MOZ_ASSERT cfg (avail_out = 0);
           MOZ_ASSERT cfg (inflateEnd zl st' = Z_OK);
           Some (True, out')
         }
       }
     }
     else if alg = ZSTD then do {
       chunkData \<leftarrow> load inbuf (unat compressedStart) (unat (compressedEnd - compressedStart));
       let (result, produced) = ZSTD_decompress zd outlen chunkData;
       if length produced \<le> outlen then do {
         out' \<leftarrow> store out 0 produced;
         Some (\<not> ZSTD_isError zd result \<and> result = outlen, out')
       } else None
     }
     else Some (False, out)
   }"

definition DecompressStringChunk ::
  "config \<Rightarrow> ('d, 'i) zlib_api \<Rightarrow> 'c zstd_api \<Rightarrow> byte list \<Rightarrow> nat \<Rightarrow> byte list \<Rightarrow> nat
     \<Rightarrow> (bool \<times> byte list) option" where
  "DecompressStringChunk cfg zl zd inbuf chunk out outlen = do {
     MOZ_ASSERT cfg (outlen \<le> CHUNK_SIZE);
     (alg, compressedBytes', compressedStart, compressedEnd) \<leftarrow>
       DecompressStringChunk_table inbuf chunk;
     DecompressStringChunk_range cfg zl zd inbuf alg compressedBytes' compressedStart
       compressedEnd out outlen
   }"

subsection \<open>The caller's protocol\<close>

text \<open>
  Modelled from the spec: the callers of the subsystem are not among the sources. The spec
  (4.1, "Lifecycles" and "Output-buffer growth protocol") has a compressor constructed,
  initialised once, bound to an output buffer that strictly exceeds \<open>outbytes\<close>, and
  stepped until \<open>DONE\<close>; after \<open>MOREOUTPUT\<close> the caller binds a larger buffer before
  the next step. \<open>running\<close> holds the states in which the caller may step,
  \<open>completed\<close> the states right after the step that returned \<open>DONE\<close>.
\<close>

inductive running ::
  "config \<Rightarrow> ('d, 'i) zlib_api \<Rightarrow> 'c zstd_api \<Rightarrow> byte list \<Rightarrow> nat \<Rightarrow> byte \<Rightarrow> byte
     \<Rightarrow> ('d, 'c) Compressor \<Rightarrow> bool"
  for cfg zl zd input input_len alg lvl where
    start:
      "Compressor_ctor cfg input input_len alg lvl = Some c0 \<Longrightarrow> 0 < input_len
       \<Longrightarrow> init cfg zl zd c0 = Some (True, c1)
       \<Longrightarrow> outbytes c1 < outlen \<Longrightarrow> outlen < 2 ^ 32
       \<Longrightarrow> setOutput cfg c1 out outlen = Some c
       \<Longrightarrow> running cfg zl zd input input_len alg lvl c"
  | continue:
      "running cfg zl zd input input_len alg lvl c
       \<Longrightarrow> compressMore cfg zl zd True c = Some (CONTINUE, c')
       \<Longrightarrow> running cfg zl zd input input_len alg lvl c'"
  | more_output:
      "running cfg zl zd input input_len alg lvl c
       \<Longrightarrow> compressMore cfg zl zd True c = Some (MOREOUTPUT, c1)
       \<Longrightarrow> outbytes c1 < outlen \<Longrightarrow> outlen < 2 ^ 32
       \<Longrightarrow> setOutput cfg c1 out outlen = Some c'
       \<Longrightarrow> running cfg zl zd input input_len alg lvl c'"

inductive completed ::
  "config \<Rightarrow> ('d, 'i) zlib_api \<Rightarrow> 'c zstd_api \<Rightarrow> byte list \<Rightarrow> nat \<Rightarrow> byte \<Rightarrow> byte
     \<Rightarrow> ('d, 'c) Compressor \<Rightarrow> bool"
  for cfg zl zd input input_len alg lvl where
    last_step:
      "running cfg zl zd input input_len alg lvl c
       \<Longrightarrow> compressMore cfg zl zd True c = Some (DONE, c')
       \<Longrightarrow> completed cfg zl zd input input_len alg lvl c'"

text \<open>Modelled from the spec: one caller that follows the protocol, as a function. It
  starts from a buffer of \<open>initial\<close> bytes, doubles it on \<open>MOREOUTPUT\<close> keeping its
  contents, and cuts it to \<^verbatim>\<open>totalBytesNeeded\<close> for \<^verbatim>\<open>finish\<close>. \<open>fuel\<close> bounds
  the number of steps; running out of fuel, a failed allocation and \<open>OOM\<close> are
  \<open>None\<close>.\<close>

fun drive ::
  "nat \<Rightarrow> config \<Rightarrow> ('d, 'i) zlib_api \<Rightarrow> 'c zstd_api \<Rightarrow> ('d, 'c) Compressor
     \<Rightarrow> ('d, 'c) Compressor option" where
  "drive 0 cfg zl zd c = None"
| "drive (Suc fuel) cfg zl zd c =
     (case compressMore cfg zl zd True c of
        None \<Rightarrow> None
      | Some (DONE, c') \<Rightarrow> Some c'
      | Some (CONTINUE, c') \<Rightarrow> drive fuel cfg zl zd c'
      | Some (MOREOUTPUT, c') \<Rightarrow>
          (case setOutput cfg c' (out_mem c' @ replicate (length (out_mem c')) 0)
                  (2 * length (out_mem c')) of
             None \<Rightarrow> None
           | Some c'' \<Rightarrow> drive fuel cfg zl zd c'')
      | Some (OOM, c') \<Rightarrow> None)"

definition compress_run ::
  "nat \<Rightarrow> config \<Rightarrow> ('d, 'i) zlib_api \<Rightarrow> 'c zstd_api \<Rightarrow> nat \<Rightarrow> byte list \<Rightarrow> byte \<Rightarrow> byte
     \<Rightarrow> (byte list \<times> ('d, 'c) Compressor) option" where
  "compress_run fuel cfg zl zd initial input alg lvl = do {
     c0 \<leftarrow> Compressor_ctor cfg input (length input) alg lvl;
     (ok, c1) \<leftarrow> init cfg zl zd c0;
     if \<not> ok then None
     else do {
       c2 \<leftarrow> setOutput cfg c1 (replicate initial 0) initial;
       c3 \<leftarrow> drive fuel cfg zl zd c2;
       let total = totalBytesNeeded c3;
       (dest, c4) \<leftarrow> finish cfg c3 (take total (out_mem c3 @ replicate total 0)) total;
       Some (dest, c3)
     }
   }"

text \<open>\<open>compress_run\<close> returns the container together with the compressor as it was when
  \<^verbatim>\<open>finish\<close> was called; \<open>compress\<close> is the container alone.\<close>

definition compress ::
  "nat \<Rightarrow> config \<Rightarrow> ('d, 'i) zlib_api \<Rightarrow> 'c zstd_api \<Rightarrow> nat \<Rightarrow> byte list \<Rightarrow> byte \<Rightarrow> byte
     \<Rightarrow> byte list option" where
  "compress fuel cfg zl zd initial input alg lvl =
     map_option fst (compress_run fuel cfg zl zd initial input alg lvl)"

subsection \<open>Stand-ins for the libraries\<close>

text \<open>
  Small codecs with the libraries' interfaces, used where a statement has to be evaluated
  on a concrete run. They are not zlib or zstd; they keep the rules of the interfaces
  the driver relies on.

  The token format: \<open>[1, b]\<close> is the literal byte \<open>b\<close>, \<open>[0]\<close> a flush marker (no
  output), \<open>[2]\<close> the end of the stream.

  \<open>stub_deflate\<close> buffers as \<^verbatim>\<open>deflate\<close> does. Its state is the tokens of the input it
  has taken but not yet compressed out (\<open>window\<close>), the output that is ready but was not
  written for lack of room (\<open>ready\<close>), and the flush value of the last call. A call with
  no room is \<open>Z_BUF_ERROR\<close>. A call first writes the ready output; if that uses up the
  room it returns \<open>Z_OK\<close> without taking any input. Otherwise it takes all its input.
  Without a flush it writes nothing more. With a flush or finish it makes the window and
  the marker ready (no second marker when nothing came since the same flush) and writes
  what fits; a finish that wrote everything with room to spare is \<open>Z_STREAM_END\<close>. A
  call that can do nothing is \<open>Z_BUF_ERROR\<close>.
\<close>

definition stub_tokens :: "byte list \<Rightarrow> byte list" where
  "stub_tokens input = concat (map (\<lambda>b. [1, b]) input)"

type_synonym stub_deflate_state = "byte list \<times> byte list \<times> int"

definition stub_deflateInit2 ::
  "int \<Rightarrow> int \<Rightarrow> int \<Rightarrow> int \<Rightarrow> int \<Rightarrow> int \<times> stub_deflate_state" where
  "stub_deflateInit2 lvl method windowBits memLevel strategy =
     (if 0 \<le> lvl \<and> lvl \<le> 9 then Z_OK else - 2, ([], [], Z_NO_FLUSH))"

definition stub_deflate ::
  "stub_deflate_state \<Rightarrow> byte list \<Rightarrow> nat \<Rightarrow> int
     \<Rightarrow> int \<times> nat \<times> byte list \<times> stub_deflate_state" where
  "stub_deflate st input room flush =
     (case st of (window, ready, prev) \<Rightarrow>
        if room = 0 then (Z_BUF_ERROR, 0, [], st)
        else if room \<le> length ready
        then (Z_OK, 0, take room ready, (window, drop room ready, prev))
        else if flush = Z_NO_FLUSH then
          (if input = [] \<and> ready = [] then (Z_BUF_ERROR, 0, [], st)
           else (Z_OK, length input, ready, (window @ stub_tokens input, [], Z_NO_FLUSH)))
        else
          let marker = (if window @ stub_tokens input = [] \<and> prev = flush then []
                        else if flush = Z_FINISH then [2] else [0]);
              out = window @ stub_tokens input @ marker;
              room' = room - length ready
          in if out = [] \<and> ready = [] \<and> flush \<noteq> Z_FINISH then (Z_BUF_ERROR, 0, [], st)
             else (if flush = Z_FINISH \<and> length out < room' then Z_STREAM_END else Z_OK,
                   length input, ready @ take room' out, ([], drop room' out, flush)))"

text \<open>\<open>stub_parse room input\<close> decodes tokens until the room is used up, the input ends
  or the stream ends: the code, the bytes consumed and the bytes written.\<close>

fun stub_parse :: "nat \<Rightarrow> byte list \<Rightarrow> int \<times> nat \<times> byte list" where
  "stub_parse room [] = (Z_OK, 0, [])"
| "stub_parse room [t] =
     (if t = 2 then (Z_STREAM_END, 1, [])
      else if t = 0 then (Z_OK, 1, [])
      else if t = 1 then (Z_OK, 0, [])
      else (Z_DATA_ERROR, 0, []))"
| "stub_parse room (t # b # rest) =
     (if t = 2 then (Z_STREAM_END, 1, [])
      else if t = 0 then (case stub_parse room (b # rest) of (r, n, out) \<Rightarrow> (r, Suc n, out))
      else if t = 1 then
        (if room = 0 then (Z_OK, 0, [])
         else (case stub_parse (room - 1) rest of (r, n, out) \<Rightarrow> (r, n + 2, b # out)))
      else (Z_DATA_ERROR, 0, []))"

text \<open>\<open>stub_inflate\<close>: the stream state is the window bits it was initialised with.
  Negative window bits read raw tokens. Otherwise the stream must start with a two-byte
  zlib header that passes the check of RFC 1950 (compression method 8, the 16-bit value a
  multiple of 31), as zlib's own \<^verbatim>\<open>inflate\<close> demands of a wrapped stream. With
  \<open>Z_FINISH\<close>, a stream that does not end is \<open>Z_BUF_ERROR\<close>.\<close>

definition stub_inflate :: "int \<Rightarrow> byte list \<Rightarrow> nat \<Rightarrow> int \<Rightarrow> int \<times> nat \<times> byte list \<times> int" where
  "stub_inflate wbits input room flush =
     (if wbits < 0 then
        (case stub_parse room input of
           (r, n, out) \<Rightarrow> (if r = Z_OK \<and> flush = Z_FINISH then Z_BUF_ERROR else r, n, out, wbits))
      else
        (case input of
           cmf # flg # rest \<Rightarrow>
             if (unat cmf * 256 + unat flg) mod 31 = 0 \<and> unat cmf mod 16 = 8
             then (case stub_parse room rest of
                     (r, n, out) \<Rightarrow>
                       (if r = Z_OK \<and> flush = Z_FINISH then Z_BUF_ERROR else r, n + 2, out, wbits))
             else (Z_DATA_ERROR, 0, [], wbits)
         | _ \<Rightarrow> (Z_BUF_ERROR, 0, [], wbits)))"

definition stub_zlib :: "(stub_deflate_state, int) zlib_api" where
  "stub_zlib = \<lparr>deflateInit2 = stub_deflateInit2, deflate = stub_deflate,
                inflateInit2 = (\<lambda>w. (Z_OK, w)), inflate = stub_inflate,
                inflateEnd = (\<lambda>st. Z_OK)\<rparr>"

text \<open>
  The zstd stand-in buffers: its state is the bytes not yet written, whether the frame
  header was queued, and whether the end marker was. \<open>stub_compressStream\<close> consumes
  all its input; each call writes as much of the queue as there is room for;
  \<open>stub_flushStream\<close> and \<open>stub_endStream\<close> return how many bytes are left in the
  queue, as the library documents. \<open>stub_decompress\<close> accepts one whole frame (magic
  number, tokens, end marker, nothing after it) that fits the destination.
\<close>

definition stub_magic :: "byte list" where
  "stub_magic = [0x28, 0xB5, 0x2F, 0xFD]"

definition stub_ZSTD_error :: nat where
  "stub_ZSTD_error = 18446744073709551606"

definition stub_isError :: "nat \<Rightarrow> bool" where
  "stub_isError r = (r > 18446744073709551496)"

definition stub_compressStream ::
  "byte list \<times> bool \<times> bool \<Rightarrow> nat \<Rightarrow> byte list
     \<Rightarrow> nat \<times> nat \<times> byte list \<times> (byte list \<times> bool \<times> bool)" where
  "stub_compressStream cs room src =
     (case cs of (pending, started, ended) \<Rightarrow>
        let queue = pending @ (if started then [] else stub_magic) @ stub_tokens src
        in (0, length src, take room queue, (drop room queue, True, ended)))"

definition stub_flushStream ::
  "byte list \<times> bool \<times> bool \<Rightarrow> nat \<Rightarrow> nat \<times> byte list \<times> (byte list \<times> bool \<times> bool)" where
  "stub_flushStream cs room =
     (case cs of (pending, started, ended) \<Rightarrow>
        (length (drop room pending), take room pending, (drop room pending, started, ended)))"

definition stub_endStream ::
  "byte list \<times> bool \<times> bool \<Rightarrow> nat \<Rightarrow> nat \<times> byte list \<times> (byte list \<times> bool \<times> bool)" where
  "stub_endStream cs room =
     (case cs of (pending, started, ended) \<Rightarrow>
        let queue = pending @ (if started then [] else stub_magic) @ (if ended then [] else [2])
        in (length (drop room queue), take room queue, (drop room queue, True, True)))"

definition stub_decompress :: "nat \<Rightarrow> byte list \<Rightarrow> nat \<times> byte list" where
  "stub_decompress dstCapacity src =
     (if take 4 src = stub_magic then
        (case stub_parse dstCapacity (drop 4 src) of
           (r, n, out) \<Rightarrow>
             if r = Z_STREAM_END \<and> n + 4 = length src then (length out, out)
             else (stub_ZSTD_error, []))
      else (stub_ZSTD_error, []))"

definition stub_zstd :: "(byte list \<times> bool \<times> bool) zstd_api" where
  "stub_zstd = \<lparr>ZSTD_createCStream = Some ([], False, False),
                ZSTD_initCStream = (\<lambda>cs lvl. (0, cs)),
                ZSTD_isError = stub_isError,
                ZSTD_compressStream = stub_compressStream,
                ZSTD_flushStream = stub_flushStream,
                ZSTD_endStream = stub_endStream,
                ZSTD_decompress = stub_decompress\<rparr>"

definition release :: config where
  "release = \<lparr>DEBUG = False, USE_LIBZ_RS = False, MAX_INPUT_SIZE = 2048\<rparr>"

definition debug :: config where
  "debug = \<lparr>DEBUG = True, USE_LIBZ_RS = False, MAX_INPUT_SIZE = 2048\<rparr>"

subsection \<open>Example runs\<close>

text \<open>The compressor after compressing the single byte \<open>0x41\<close> with the stand-in
  deflate into a 64 byte buffer (release build), and the container \<^verbatim>\<open>finish\<close> writes
  for it: the header, three payload bytes, one byte of padding, one chunk offset.\<close>

definition zlib_example :: "(stub_deflate_state, byte list \<times> bool \<times> bool) Compressor" where
  "zlib_example =
     \<lparr>algorithm_m = 0, level_m = 0, inp = [0x41], inplen = 1, initialized = True,
      finished = False, currentChunkSize = 0, outbytes = 11, chunkOffsets = [11],
      zs_next_in = 1, zs_avail_in = 0, zs_next_out = Some 11, zs_avail_out = 53,
      zs_state = Some ([], [], 4), zstdCStream = None, zstdOutput_dst = 0, zstdOutput_size = 0,
      zstdOutput_pos = 0, zstdInputPos = 0,
      out_mem = replicate 8 0 @ [1, 0x41, 2] @ replicate 53 0\<rparr>"

definition zlib_example_container :: "byte list" where
  "zlib_example_container = [11, 0, 0, 0, 0, 0, 0, 0, 1, 0x41, 2, 0, 11, 0, 0, 0]"

text \<open>A zstd compressor for the same single byte in a debug build, bound to a buffer
  of nine bytes: the header and one byte of room.\<close>

definition zstd_tight_example :: "(stub_deflate_state, byte list \<times> bool \<times> bool) Compressor" where
  "zstd_tight_example =
     \<lparr>algorithm_m = 1, level_m = 0, inp = [0x41], inplen = 1, initialized = True,
      finished = False, currentChunkSize = 0, outbytes = 8, chunkOffsets = [],
      zs_next_in = 0, zs_avail_in = 0, zs_next_out = None, zs_avail_out = 0,
      zs_state = None, zstdCStream = Some ([], False, False), zstdOutput_dst = 8,
      zstdOutput_size = 1, zstdOutput_pos = 0, zstdInputPos = 0,
      out_mem = replicate 9 0\<rparr>"

subsection \<open>Accounting\<close>

text \<open>
  Notions for stating what a step does to the counters. \<open>input_pos\<close> is the input
  cursor of the arm in use. \<open>step_effect consumed produced dn st c c'\<close> says that a
  step from \<open>c\<close> to \<open>c'\<close> with status \<open>st\<close> consumed \<open>consumed\<close> input bytes,
  wrote \<open>produced\<close> output bytes, and recorded a chunk offset exactly where the source
  does (\<open>dn\<close> is the step's \<open>done\<close>). \<open>accounting\<close> is the invariant that ties
  the cursor to the chunk offsets recorded so far.
\<close>

definition input_pos :: "('d, 'c) Compressor \<Rightarrow> nat" where
  "input_pos c = (if algorithm_m c = ZLIB then zs_next_in c else zstdInputPos c)"

definition step_effect ::
  "nat \<Rightarrow> nat \<Rightarrow> bool \<Rightarrow> Status \<Rightarrow> ('d, 'c) Compressor \<Rightarrow> ('d, 'c) Compressor \<Rightarrow> bool" where
  "step_effect consumed produced dn st c c' \<longleftrightarrow>
     algorithm_m c' = algorithm_m c \<and> level_m c' = level_m c \<and> inp c' = inp c
     \<and> inplen c' = inplen c \<and> input_pos c' = input_pos c + consumed
     \<and> outbytes c' = outbytes c + produced
     \<and> (case st of
           MOREOUTPUT \<Rightarrow> chunkOffsets c' = chunkOffsets c
                          \<and> currentChunkSize c' = currentChunkSize c + consumed
         | CONTINUE \<Rightarrow> \<not> dn
              \<and> (if currentChunkSize c + consumed = CHUNK_SIZE
                  then chunkOffsets c' = chunkOffsets c @ [word_of_nat (outbytes c')]
                       \<and> currentChunkSize c' = 0
                  else chunkOffsets c' = chunkOffsets c
                       \<and> currentChunkSize c' = currentChunkSize c + consumed)
         | DONE \<Rightarrow> dn \<and> chunkOffsets c' = chunkOffsets c @ [word_of_nat (outbytes c')]
                     \<and> currentChunkSize c' = 0
         | OOM \<Rightarrow> True)"

definition accounting ::
  "byte list \<Rightarrow> nat \<Rightarrow> byte \<Rightarrow> byte \<Rightarrow> ('d, 'c) Compressor \<Rightarrow> bool" where
  "accounting input n alg lvl c \<longleftrightarrow>
     algorithm_m c = alg \<and> level_m c = lvl \<and> inp c = input \<and> inplen c = n
     \<and> (alg = ZLIB \<or> alg = ZSTD) \<and> 0 < n \<and> n < UINT32_MAX
     \<and> input_pos c \<le> n
     \<and> input_pos c = CHUNK_SIZE * length (chunkOffsets c) + currentChunkSize c
     \<and> currentChunkSize c \<le> CHUNK_SIZE
     \<and> CHUNK_SIZE * length (chunkOffsets c) < n
     \<and> sizeof_CompressedDataHeader \<le> outbytes c
     \<and> (if alg = ZLIB then zs_avail_in c \<le> n - zs_next_in c else True)"

subsection \<open>What the steps expect of the libraries\<close>

text \<open>
  The libraries are parameters; these are the rules of their manuals that the offsets of
  the chunks depend on, stated with a measure \<open>pz\<close> (\<open>ps\<close> for zstd) of the output a
  stream holds back.

  For \<^verbatim>\<open>deflate\<close> (\<^verbatim>\<open>zlib.h\<close>): it returns \<^verbatim>\<open>Z_OK\<close>, \<^verbatim>\<open>Z_STREAM_END\<close>,
  \<^verbatim>\<open>Z_BUF_ERROR\<close> or \<^verbatim>\<open>Z_MEM_ERROR\<close>; input it consumed and output it held back do
  not vanish: they are written or still held back after the call; and a flushing call
  that returns \<^verbatim>\<open>Z_STREAM_END\<close>, or \<^verbatim>\<open>Z_OK\<close> with room left in the output, has
  consumed all its input and holds nothing back ("the flush is complete").
\<close>

definition zlib_progress :: "('d, 'i) zlib_api \<Rightarrow> ('d \<Rightarrow> nat) \<Rightarrow> bool" where
  "zlib_progress zl pz \<longleftrightarrow>
     (\<forall>st input room flush ret consumed produced st'.
        deflate zl st input room flush = (ret, consumed, produced, st') \<longrightarrow>
          (ret = Z_OK \<or> ret = Z_STREAM_END \<or> ret = Z_BUF_ERROR \<or> ret = Z_MEM_ERROR)
          \<and> (0 < consumed \<or> 0 < pz st \<longrightarrow> produced \<noteq> [] \<or> 0 < pz st')
          \<and> (flush \<noteq> Z_NO_FLUSH \<and> (ret = Z_STREAM_END \<or> ret = Z_OK \<and> length produced < room)
                \<longrightarrow> consumed = length input \<and> pz st' = 0))"

text \<open>For zstd (\<^verbatim>\<open>zstd.h\<close>): what \<^verbatim>\<open>ZSTD_compressStream\<close> consumed or held back is
  written or still held back, and given input and room it consumes or writes something;
  \<^verbatim>\<open>ZSTD_flushStream\<close> keeps what it cannot write; \<^verbatim>\<open>ZSTD_flushStream\<close> and
  \<^verbatim>\<open>ZSTD_endStream\<close> write at least one byte when something is held back and there is
  room.\<close>

definition zstd_progress :: "'c zstd_api \<Rightarrow> ('c \<Rightarrow> nat) \<Rightarrow> bool" where
  "zstd_progress zd ps \<longleftrightarrow>
     (\<forall>cs room src ret consumed produced cs'.
        ZSTD_compressStream zd cs room src = (ret, consumed, produced, cs') \<longrightarrow>
          (0 < consumed \<or> 0 < ps cs \<longrightarrow> produced \<noteq> [] \<or> 0 < ps cs')
          \<and> (src \<noteq> [] \<and> 0 < room \<longrightarrow> 0 < consumed \<or> produced \<noteq> []))
     \<and> (\<forall>cs room ret produced cs'.
        ZSTD_flushStream zd cs room = (ret, produced, cs') \<longrightarrow>
          (0 < ps cs \<longrightarrow> produced \<noteq> [] \<or> 0 < ps cs')
          \<and> (0 < ps cs \<and> 0 < room \<longrightarrow> produced \<noteq> []))
     \<and> (\<forall>cs room ret produced cs'.
        ZSTD_endStream zd cs room = (ret, produced, cs') \<longrightarrow>
          (0 < ps cs \<and> 0 < room \<longrightarrow> produced \<noteq> []))"

text \<open>\<open>pending\<close> is the measure of the stream in use. \<open>chunk_progress\<close> relates the
  chunk offsets to the natural numbers \<open>ks\<close> they were cut from: these increase strictly
  from the header size on, none exceeds \<open>outbytes\<close>, and once the current chunk has
  consumed input, either output was written since the last offset or the stream holds
  some back. \<open>output_room\<close>: the zstd output buffer has room left.\<close>

definition pending :: "('d \<Rightarrow> nat) \<Rightarrow> ('c \<Rightarrow> nat) \<Rightarrow> ('d, 'c) Compressor \<Rightarrow> nat" where
  "pending pz ps c =
     (if algorithm_m c = ZLIB then (case zs_state c of Some st \<Rightarrow> pz st | None \<Rightarrow> 0)
      else (case zstdCStream c of Some cs \<Rightarrow> ps cs | None \<Rightarrow> 0))"

definition chunk_progress ::
  "('d \<Rightarrow> nat) \<Rightarrow> ('c \<Rightarrow> nat) \<Rightarrow> nat list \<Rightarrow> ('d, 'c) Compressor \<Rightarrow> bool" where
  "chunk_progress pz ps ks c \<longleftrightarrow>
     chunkOffsets c = map word_of_nat ks
     \<and> sorted_wrt (<) (sizeof_CompressedDataHeader # ks)
     \<and> last (sizeof_CompressedDataHeader # ks) \<le> outbytes c
     \<and> (0 < currentChunkSize c \<longrightarrow>
          last (sizeof_CompressedDataHeader # ks) < outbytes c \<or> 0 < pending pz ps c)"

definition output_room :: "('d, 'c) Compressor \<Rightarrow> bool" where
  "output_room c \<longleftrightarrow>
     algorithm_m c = ZLIB
     \<or> zstdOutput_pos c < zstdOutput_size c \<and> zstdOutput_size c < 2 ^ 64"






section \<open>Properties\<close>

subsection \<open>Bytes and memory\<close>

lemma unat_ucast_byte: "unat (ucast (w :: uint32_t) :: byte) = unat w mod 256"
  by (simp add: unsigned_ucast_eq take_bit_eq_mod)

lemma unat_drop_bit32: "unat (drop_bit n (w :: uint32_t)) = unat w div 2 ^ n"
  unfolding unat_drop_bit_eq by (rule drop_bit_eq_div)

lemma unat_ucast_byte16: "unat (ucast (w :: uint16_t) :: byte) = unat w mod 256"
  by (simp add: unsigned_ucast_eq take_bit_eq_mod)

lemma unat_drop_bit16: "unat (drop_bit n (w :: uint16_t)) = unat w div 2 ^ n"
  unfolding unat_drop_bit_eq by (rule drop_bit_eq_div)

lemma base256_digits:
  fixes n :: nat
  assumes "n < 4294967296"
  shows "n mod 256 + 256 * (n div 256 mod 256) + 65536 * (n div 65536 mod 256)
        + 16777216 * (n div 16777216 mod 256) = n"
proof -
  define a where "a = n div 256"
  define b where "b = a div 256"
  define c where "c = b div 256"
  have n: "n = n mod 256 + 256 * a" by (simp add: a_def)
  have a: "a = a mod 256 + 256 * b" by (simp add: b_def)
  have b: "b = b mod 256 + 256 * c" by (simp add: c_def)
  have b': "n div 65536 = b" by (simp add: a_def b_def div_mult2_eq)
  have c': "n div 16777216 = c" by (simp add: a_def b_def c_def div_mult2_eq)
  have "c < 256" using assms unfolding c' [symmetric] by simp
  then have c: "c mod 256 = c" by simp
  show ?thesis unfolding b' c' c a_def [symmetric] using n a b by linarith
qed

lemma rd32_le32: "rd32 (le32 w) = w"
proof -
  have b: "unat w < 4294967296" using unsigned_less [of w, where 'a=nat] by simp
  have "rd32 (le32 w) = word_of_nat (unat w mod 256 + 256 * (unat w div 256 mod 256)
      + 65536 * (unat w div 65536 mod 256) + 16777216 * (unat w div 16777216 mod 256))"
    unfolding rd32_def le32_def
    by (simp only: nth_Cons_0 nth_Cons_numeral nth_Cons_Suc unat_ucast_byte
           unat_drop_bit32 [of 8, simplified] unat_drop_bit32 [of 16, simplified]
           unat_drop_bit32 [of 24, simplified] One_nat_def diff_numeral_Suc
           pred_numeral_simps diff_Suc_1 numeral_2_eq_2 numeral_3_eq_3)
  also have "\<dots> = word_of_nat (unat w)" by (simp only: base256_digits [OF b])
  finally show ?thesis by simp
qed

lemma rd16_le16: "rd16 (le16 w) = w"
proof -
  have "rd16 (le16 w) = word_of_nat (unat w mod 256 + 256 * (unat w div 256 mod 256))"
    unfolding rd16_def le16_def
    by (simp only: nth_Cons_0 nth_Cons_Suc unat_ucast_byte16 unat_drop_bit16 [of 8, simplified]
          One_nat_def)
  moreover have "unat w div 256 < 256" using unsigned_less [of w, where 'a=nat] by simp
  ultimately show ?thesis by simp
qed

lemma length_le32 [simp]: "length (le32 w) = 4"
  by (simp add: le32_def)

lemma length_le16 [simp]: "length (le16 w) = 2"
  by (simp add: le16_def)

lemma length_header_bytes [simp]: "length (header_bytes h) = 8"
  by (simp add: header_bytes_def)

lemma length_store: "store mem off bs = Some mem' \<Longrightarrow> length mem' = length mem"
  by (auto simp: store_def split: if_splits)

lemma load_store_same:
  "store mem off bs = Some mem' \<Longrightarrow> load mem' off (length bs) = Some bs"
  by (auto simp: store_def load_def split: if_splits)

lemma load_store_other:
  "store mem off bs = Some mem' \<Longrightarrow> off' + n \<le> off \<or> off + length bs \<le> off'
     \<Longrightarrow> load mem' off' n = load mem off' n"
  by (auto simp: store_def load_def take_drop split: if_splits)

lemma load_within:
  assumes "load mem off (length bs) = Some bs" and "k + n \<le> length bs"
  shows "load mem (off + k) n = Some (take n (drop k bs))"
proof -
  from assms(1) have le: "off + length bs \<le> length mem"
    and bs: "bs = take (length bs) (drop off mem)"
    by (auto simp: load_def split: if_splits)
  have "take n (drop k bs) = take n (drop k (take (length bs) (drop off mem)))"
    using bs by simp
  also have "\<dots> = take n (drop (off + k) mem)"
    using assms(2) by (simp add: drop_take add.commute)
  finally show ?thesis using le assms(2) by (simp add: load_def)
qed

lemma read_header_bytes:
  assumes "load mem 0 8 = Some (header_bytes h)"
  shows "read_header mem = Some h"
proof -
  have "rd32 (take 4 (header_bytes h)) = compressedBytes h"
    by (simp add: header_bytes_def rd32_le32)
  moreover have "rd16 (drop 6 (header_bytes h)) = reserved h"
    by (simp add: header_bytes_def rd16_le16)
  moreover have "header_bytes h ! 4 = algorithm h" "header_bytes h ! 5 = level h"
    by (simp_all add: header_bytes_def nth_append)
  ultimately show ?thesis
    using assms by (simp add: read_header_def sizeof_CompressedDataHeader_def)
qed

lemma length_concat_le32 [simp]: "length (concat (map le32 xs)) = 4 * length xs"
  by (induction xs) simp_all

lemma take_drop_concat_le32:
  "i < length xs \<Longrightarrow> take 4 (drop (4 * i) (concat (map le32 xs))) = le32 (xs ! i)"
proof (induction xs arbitrary: i)
  case Nil
  then show ?case by simp
next
  case (Cons x xs)
  show ?case
  proof (cases i)
    case 0
    then show ?thesis by simp
  next
    case (Suc j)
    then have "j < length xs" using Cons.prems by simp
    from Cons.IH [OF this] show ?thesis using Suc by simp
  qed
qed

lemma unat_word_of_nat32: "n < 2 ^ 32 \<Longrightarrow> unat (word_of_nat n :: uint32_t) = n"
  by (simp add: unat_of_nat)

lemma AlignBytes_ge: "n \<le> AlignBytes n a"
  by (simp add: AlignBytes_def)

subsection \<open>Evaluation\<close>

lemmas const_defs = UINT32_MAX_def sizeof_CompressedDataHeader_def CHUNK_SIZE_def ZLIB_def
  ZSTD_def Z_OK_def Z_STREAM_END_def Z_DATA_ERROR_def Z_MEM_ERROR_def Z_BUF_ERROR_def
  Z_NO_FLUSH_def Z_FULL_FLUSH_def Z_FINISH_def Z_BEST_SPEED_def Z_DEFLATED_def
  Z_DEFAULT_STRATEGY_def DEF_WBITS_def WindowBits_def

lemmas stub_defs = stub_zlib_def stub_zstd_def stub_deflateInit2_def stub_deflate_def
  stub_tokens_def stub_inflate_def stub_magic_def stub_ZSTD_error_def stub_isError_def
  stub_compressStream_def stub_flushStream_def stub_endStream_def stub_decompress_def
  release_def debug_def

lemmas step_defs = Compressor_ctor_def init_def setOutput_def compressMore_def
  compressMoreZlib_def compressMoreZlib_plan_def compressMoreZlib_tail_def
  compressMoreZstd_def compressMoreZstd_plan_def compressMoreZstd_tail_def call_deflate_def
  call_ZSTD_compressStream_def call_ZSTD_flushStream_def call_ZSTD_endStream_def
  zstd_written_def chunkSize_def MOZ_ASSERT_def MOZ_RELEASE_ASSERT_def
  load_def store_def sub_size_t_def to_uInt_def Let_def

lemmas finish_defs = finish_def totalBytesNeeded_def sizeOfChunkOffsets_def AlignBytes_def
  header_bytes_def le32_def le16_def MOZ_ASSERT_def store_def Let_def

lemma drive_numeral:
  "drive (numeral k) cfg zl zd c =
     (case compressMore cfg zl zd True c of
        None \<Rightarrow> None
      | Some (DONE, c') \<Rightarrow> Some c'
      | Some (CONTINUE, c') \<Rightarrow> drive (pred_numeral k) cfg zl zd c'
      | Some (MOREOUTPUT, c') \<Rightarrow>
          (case setOutput cfg c' (out_mem c' @ replicate (length (out_mem c')) 0)
                  (2 * length (out_mem c')) of
             None \<Rightarrow> None
           | Some c'' \<Rightarrow> drive (pred_numeral k) cfg zl zd c'')
      | Some (OOM, c') \<Rightarrow> None)"
  by (simp add: numeral_eq_Suc)

lemma zlib_example_finish:
  "finish release zlib_example (take 16 (out_mem zlib_example)) 16
     = Some (zlib_example_container, zlib_example\<lparr>finished := True\<rparr>)"
  by (simp add: zlib_example_def zlib_example_container_def finish_defs release_def)

lemma zlib_example_completed:
  "completed release stub_zlib stub_zstd [0x41] 1 ZLIB 0 zlib_example"
proof -
  define c0 :: "(stub_deflate_state, byte list \<times> bool \<times> bool) Compressor" where
    "c0 = \<lparr>algorithm_m = ZLIB, level_m = 0, inp = [0x41], inplen = 1,
           initialized = False, finished = False, currentChunkSize = 0,
           outbytes = sizeof_CompressedDataHeader, chunkOffsets = [],
           zs_next_in = 0, zs_avail_in = 0, zs_next_out = None, zs_avail_out = 0,
           zs_state = None, zstdCStream = None,
           zstdOutput_dst = 0, zstdOutput_size = 0, zstdOutput_pos = 0,
           zstdInputPos = 0, out_mem = []\<rparr>"
  define c1 where "c1 = c0\<lparr>zs_state := Some ([], [], 0), initialized := True\<rparr>"
  define c2 where "c2 = c1\<lparr>out_mem := replicate 64 0, zs_next_out := Some 8, zs_avail_out := 56\<rparr>"
  have 0: "Compressor_ctor release [0x41] 1 ZLIB 0 = Some c0"
    by (simp add: Compressor_ctor_def c0_def MOZ_ASSERT_def)
  have 1: "init release stub_zlib stub_zstd c0 = Some (True, c1)"
    by (simp add: init_def c0_def c1_def const_defs stub_defs)
  have 2: "setOutput release c1 (replicate 64 0) 64 = Some c2"
    by (simp add: setOutput_def c0_def c1_def c2_def const_defs MOZ_ASSERT_def
        to_uInt_def sub_size_t_def)
  have 3: "compressMore release stub_zlib stub_zstd True c2 = Some (DONE, zlib_example)"
    by (simp add: c0_def c1_def c2_def zlib_example_def step_defs const_defs stub_defs)
  have "running release stub_zlib stub_zstd [0x41] 1 ZLIB 0 c2"
    by (rule running.start [OF 0 _ 1 _ _ 2]) (simp_all add: c0_def c1_def const_defs)
  then show ?thesis using 3 by (rule completed.last_step)
qed

lemma zlib_example_header:
  "read_header zlib_example_container
     = Some \<lparr>compressedBytes = 11, algorithm = 0, level = 0, reserved = 0\<rparr>"
  by (simp add: zlib_example_container_def read_header_def load_def rd32_def rd16_def
      sizeof_CompressedDataHeader_def)

lemma zstd_tight_example_running:
  "running debug stub_zlib stub_zstd [0x41] 1 ZSTD 0 zstd_tight_example"
proof -
  define c0 :: "(stub_deflate_state, byte list \<times> bool \<times> bool) Compressor" where
    "c0 = \<lparr>algorithm_m = ZSTD, level_m = 0, inp = [0x41], inplen = 1,
           initialized = False, finished = False, currentChunkSize = 0,
           outbytes = sizeof_CompressedDataHeader, chunkOffsets = [],
           zs_next_in = 0, zs_avail_in = 0, zs_next_out = None, zs_avail_out = 0,
           zs_state = None, zstdCStream = None,
           zstdOutput_dst = 0, zstdOutput_size = 0, zstdOutput_pos = 0,
           zstdInputPos = 0, out_mem = []\<rparr>"
  define c1 where "c1 = c0\<lparr>zstdCStream := Some ([], False, False), initialized := True\<rparr>"
  have 0: "Compressor_ctor debug [0x41] 1 ZSTD 0 = Some c0"
    by (simp add: Compressor_ctor_def c0_def MOZ_ASSERT_def)
  have 1: "init debug stub_zlib stub_zstd c0 = Some (True, c1)"
    by (simp add: init_def c0_def c1_def const_defs stub_defs)
  have 2: "setOutput debug c1 (replicate 9 0) 9 = Some zstd_tight_example"
    by (simp add: setOutput_def c0_def c1_def zstd_tight_example_def const_defs MOZ_ASSERT_def
        to_uInt_def sub_size_t_def debug_def)
  show ?thesis
    by (rule running.start [OF 0 _ 1 _ _ 2]) (simp_all add: c0_def c1_def const_defs)
qed

lemma length_concat_replicate: "length (concat (replicate n xs)) = n * length xs"
  by (induction n) simp_all

lemma replicate_3: "replicate 3 x = [x, x, x]"
  by (simp add: numeral_3_eq_3)

subsection \<open>The container writer\<close>

lemma finish_stores:
  assumes "finish cfg c dest n = Some (dest', c')"
  obtains dest1 dest2 where
    "store dest 0 (header_bytes \<lparr>compressedBytes = word_of_nat (outbytes c),
        algorithm = algorithm_m c, level = level_m c, reserved = 0\<rparr>) = Some dest1"
    "store dest1 (outbytes c) (replicate (AlignBytes (outbytes c) 4 - outbytes c) 0) = Some dest2"
    "store dest2 (AlignBytes (outbytes c) 4) (concat (map le32 (chunkOffsets c))) = Some dest'"
    "c' = c\<lparr>finished := True\<rparr>"
proof -
  from assms obtain dest1 where
    a: "store dest 0 (header_bytes \<lparr>compressedBytes = word_of_nat (outbytes c),
        algorithm = algorithm_m c, level = level_m c, reserved = 0\<rparr>) = Some dest1"
    unfolding finish_def by (auto simp: bind_eq_Some_conv)
  from assms a obtain dest2 where
    b: "store dest1 (outbytes c) (replicate (AlignBytes (outbytes c) 4 - outbytes c) 0)
          = Some dest2"
    unfolding finish_def Let_def by (auto simp: bind_eq_Some_conv)
  from assms a b have
    "store dest2 (AlignBytes (outbytes c) 4) (concat (map le32 (chunkOffsets c))) = Some dest'"
    "c' = c\<lparr>finished := True\<rparr>"
    unfolding finish_def Let_def by (auto simp: bind_eq_Some_conv)
  with a b that show ?thesis by blast
qed

lemma finish_header:
  assumes fin: "finish cfg c dest n = Some (dest', c')"
    and ge: "sizeof_CompressedDataHeader \<le> outbytes c"
  shows "read_header dest' = Some \<lparr>compressedBytes = word_of_nat (outbytes c),
        algorithm = algorithm_m c, level = level_m c, reserved = 0\<rparr>"
proof -
  let ?h = "\<lparr>compressedBytes = word_of_nat (outbytes c), algorithm = algorithm_m c,
             level = level_m c, reserved = 0\<rparr>"
  from fin obtain dest1 dest2 where
    s1: "store dest 0 (header_bytes ?h) = Some dest1" and
    s2: "store dest1 (outbytes c) (replicate (AlignBytes (outbytes c) 4 - outbytes c) 0)
           = Some dest2" and
    s3: "store dest2 (AlignBytes (outbytes c) 4) (concat (map le32 (chunkOffsets c)))
           = Some dest'"
    by (rule finish_stores)
  have 8: "8 \<le> outbytes c" using ge by (simp add: sizeof_CompressedDataHeader_def)
  have "load dest1 0 8 = Some (header_bytes ?h)"
    using load_store_same [OF s1] by simp
  moreover have "load dest2 0 8 = load dest1 0 8"
    using 8 by (intro load_store_other [OF s2]) simp
  moreover have "load dest' 0 8 = load dest2 0 8"
    using 8 AlignBytes_ge [of "outbytes c" 4] by (intro load_store_other [OF s3]) simp
  ultimately show ?thesis by (simp add: read_header_bytes)
qed

lemma finish_offsets:
  assumes fin: "finish cfg c dest n = Some (dest', c')"
    and i: "i < length (chunkOffsets c)"
  shows "load_u32 dest' (AlignBytes (outbytes c) 4 + 4 * i) = Some (chunkOffsets c ! i)"
proof -
  from fin obtain dest2 where
    s3: "store dest2 (AlignBytes (outbytes c) 4) (concat (map le32 (chunkOffsets c)))
           = Some dest'"
    by (rule finish_stores)
  have "load dest' (AlignBytes (outbytes c) 4 + 4 * i) 4
        = Some (take 4 (drop (4 * i) (concat (map le32 (chunkOffsets c)))))"
    using i by (intro load_within [OF load_store_same [OF s3]]) simp
  then show ?thesis using i by (simp add: load_u32_def take_drop_concat_le32 rd32_le32)
qed

subsection \<open>The steps of the compressor\<close>

lemma MOZ_ASSERT_bind [simp]:
  "(MOZ_ASSERT cfg b \<bind> f) = Some r \<longleftrightarrow> (DEBUG cfg \<longrightarrow> b) \<and> f () = Some r"
  by (auto simp: MOZ_ASSERT_def)

lemma debug_block_bind [simp]:
  "((if DEBUG cfg then m else Some ()) \<bind> f) = Some r
     \<longleftrightarrow> (DEBUG cfg \<longrightarrow> m \<noteq> None) \<and> f () = Some r"
  by (cases m) auto

lemma call_deflate_Some:
  assumes "call_deflate zl c f = Some (ret, c1)"
  shows "\<exists>st consumed produced st' nout mem.
    zs_state c = Some st \<and> zs_next_out c = Some nout
    \<and> zs_next_in c + zs_avail_in c \<le> length (inp c)
    \<and> deflate zl st (take (zs_avail_in c) (drop (zs_next_in c) (inp c))) (zs_avail_out c) f
       = (ret, consumed, produced, st')
    \<and> consumed \<le> zs_avail_in c \<and> length produced \<le> zs_avail_out c
    \<and> store (out_mem c) nout produced = Some mem
    \<and> c1 = c\<lparr>zs_next_in := zs_next_in c + consumed,
            zs_avail_in := zs_avail_in c - consumed,
            zs_next_out := Some (nout + length produced),
            zs_avail_out := zs_avail_out c - length produced,
            zs_state := Some st', out_mem := mem\<rparr>"
proof -
  let ?input = "take (zs_avail_in c) (drop (zs_next_in c) (inp c))"
  from assms obtain nout st where
    le: "zs_next_in c + zs_avail_in c \<le> length (inp c)"
    and n: "zs_next_out c = Some nout" and s: "zs_state c = Some st"
    and rest: "(let (ret', consumed, produced, st') = deflate zl st ?input (zs_avail_out c) f
       in if consumed \<le> zs_avail_in c \<and> length produced \<le> zs_avail_out c then do {
       mem \<leftarrow> store (out_mem c) nout produced;
       Some (ret', c\<lparr>zs_next_in := zs_next_in c + consumed,
                    zs_avail_in := zs_avail_in c - consumed,
                    zs_next_out := Some (nout + length produced),
                    zs_avail_out := zs_avail_out c - length produced,
                    zs_state := Some st', out_mem := mem\<rparr>)
     } else None) = Some (ret, c1)"
    by (auto simp: call_deflate_def load_def bind_eq_Some_conv split: if_splits)
  obtain ret' consumed produced st' where
    d: "deflate zl st ?input (zs_avail_out c) f = (ret', consumed, produced, st')"
    by (metis prod_cases4)
  from rest d show ?thesis using le n s
    by (auto simp: bind_eq_Some_conv split: if_splits)
qed

lemma compressMoreZlib_tail_Some:
  assumes "compressMoreZlib_tail cfg True done flush ret oldin oldout c1 = Some (st, c')"
  shows "\<exists>newout. zs_next_out c1 = Some newout \<and>
     (let ob = outbytes c1 + (newout - oldout);
          ccs = currentChunkSize c1 + (zs_next_in c1 - oldin);
          c2 = c1\<lparr>outbytes := ob, currentChunkSize := ccs\<rparr>
      in (st = OOM \<and> ret = Z_MEM_ERROR \<and> c' = c2\<lparr>zs_avail_out := 0\<rparr>)
       \<or> (st = MOREOUTPUT \<and> ret \<noteq> Z_MEM_ERROR
            \<and> (ret = Z_BUF_ERROR \<or> ret = Z_OK \<and> zs_avail_out c1 = 0) \<and> c' = c2)
       \<or> ((st = DONE \<or> st = CONTINUE) \<and> (st = DONE \<longleftrightarrow> done)
            \<and> ret \<noteq> Z_MEM_ERROR \<and> ret \<noteq> Z_BUF_ERROR \<and> \<not> (ret = Z_OK \<and> zs_avail_out c1 = 0)
            \<and> c' = (if done \<or> ccs = CHUNK_SIZE
                     then c2\<lparr>chunkOffsets := chunkOffsets c1 @ [word_of_nat ob],
                             currentChunkSize := 0\<rparr>
                     else c2)))"
  using assms
  by (auto simp: compressMoreZlib_tail_def Let_def bind_eq_Some_conv split: if_splits)

lemma sub_size_t_eq: "b \<le> a \<Longrightarrow> a < 2 ^ 64 \<Longrightarrow> sub_size_t a b = a - b"
proof -
  assume le: "b \<le> a" and lt: "a < 2 ^ 64"
  have "int a - int b = int (a - b)" using le by simp
  moreover have "a - b < 2 ^ 64" using lt by (rule less_imp_diff_less)
  then have "int (a - b) < 2 ^ 64" by (metis of_nat_less_iff of_nat_numeral of_nat_power)
  then have "int (a - b) mod 2 ^ 64 = int (a - b)" by (intro mod_pos_pos_trivial) simp_all
  ultimately show ?thesis unfolding sub_size_t_def by (simp only: nat_int)
qed

lemma to_uInt_eq: "n < 2 ^ 32 \<Longrightarrow> to_uInt n = n"
  by (simp add: to_uInt_def)

lemma zlib_left_eq:
  assumes "inplen c < 2 ^ 32" "zs_next_in c \<le> inplen c"
  shows "to_uInt (sub_size_t (inplen c) (zs_next_in c)) = inplen c - zs_next_in c"
proof -
  have "(2::nat) ^ 32 < 2 ^ 64" by simp
  with assms(1) have "inplen c < 2 ^ 64" by (rule less_trans)
  then have "sub_size_t (inplen c) (zs_next_in c) = inplen c - zs_next_in c"
    using assms(2) by (rule sub_size_t_eq [rotated])
  moreover have "inplen c - zs_next_in c < 2 ^ 32" using assms(1) by (rule less_imp_diff_less)
  ultimately show ?thesis by (simp only: to_uInt_eq)
qed

lemma chunk_room_eq:
  assumes "n \<le> CHUNK_SIZE"
  shows "sub_size_t CHUNK_SIZE n = CHUNK_SIZE - n" "to_uInt (CHUNK_SIZE - n) = CHUNK_SIZE - n"
proof -
  have a: "CHUNK_SIZE < 2 ^ 64" and b: "CHUNK_SIZE < 2 ^ 32" by (simp_all add: CHUNK_SIZE_def)
  show "sub_size_t CHUNK_SIZE n = CHUNK_SIZE - n"
    using assms a by (rule sub_size_t_eq)
  have "CHUNK_SIZE - n < 2 ^ 32" using b by (rule less_imp_diff_less)
  then show "to_uInt (CHUNK_SIZE - n) = CHUNK_SIZE - n" by (rule to_uInt_eq)
qed

lemma compressMoreZlib_plan_Some:
  assumes plan: "compressMoreZlib_plan cfg c = Some (avail, flush, done)"
    and n: "inplen c < 2 ^ 32" and pos: "zs_next_in c \<le> inplen c"
    and ccs: "currentChunkSize c \<le> CHUNK_SIZE"
    and res: "zs_avail_in c \<le> inplen c - zs_next_in c"
  defines "left \<equiv> inplen c - zs_next_in c"
  defines "base \<equiv> (if left \<le> MAX_INPUT_SIZE cfg then left
                    else if zs_avail_in c = 0 then MAX_INPUT_SIZE cfg else zs_avail_in c)"
  shows "flush = (CHUNK_SIZE \<le> currentChunkSize c + base)"
    and "avail = (if flush then CHUNK_SIZE - currentChunkSize c else base)"
    and "done = (avail = left)"
    and "avail \<le> left" and "currentChunkSize c + avail \<le> CHUNK_SIZE"
proof -
  have l: "to_uInt (sub_size_t (inplen c) (zs_next_in c)) = left"
    unfolding left_def by (rule zlib_left_eq [OF n pos])
  have "left < 2 ^ 32" unfolding left_def using n by (rule less_imp_diff_less)
  then have m: "\<not> left \<le> MAX_INPUT_SIZE cfg \<Longrightarrow> to_uInt (MAX_INPUT_SIZE cfg) = MAX_INPUT_SIZE cfg"
    by (intro to_uInt_eq) linarith
  have b: "(if left \<le> MAX_INPUT_SIZE cfg then left
            else if zs_avail_in c = 0 then to_uInt (MAX_INPUT_SIZE cfg) else zs_avail_in c) = base"
    using m by (simp add: base_def)
  have r: "to_uInt (sub_size_t CHUNK_SIZE (currentChunkSize c)) = CHUNK_SIZE - currentChunkSize c"
    using chunk_room_eq [OF ccs] by simp
  from plan have eqs: "flush = (CHUNK_SIZE \<le> currentChunkSize c + base)"
      "avail = (if flush then CHUNK_SIZE - currentChunkSize c else base)"
      "done = (avail = left)"
    unfolding compressMoreZlib_plan_def Let_def l b r by (auto simp: bind_eq_Some_conv)
  show "flush = (CHUNK_SIZE \<le> currentChunkSize c + base)" by (rule eqs)
  show "avail = (if flush then CHUNK_SIZE - currentChunkSize c else base)" by (rule eqs)
  show "done = (avail = left)" by (rule eqs)
  have "base \<le> left" using res by (auto simp: base_def left_def)
  then show "avail \<le> left" using eqs(1,2) by auto
  show "currentChunkSize c + avail \<le> CHUNK_SIZE" using eqs(1,2) ccs by auto
qed

lemma compressMoreZlib_Some:
  assumes "compressMoreZlib cfg zl ok c = Some (st, c')"
  shows "\<exists>avail flush done ret c1 nout.
     compressMoreZlib_plan cfg c = Some (avail, flush, done)
     \<and> zs_next_out c = Some nout
     \<and> call_deflate zl (c\<lparr>zs_avail_in := avail\<rparr>)
          (if done then Z_FINISH else if flush then Z_FULL_FLUSH else Z_NO_FLUSH) = Some (ret, c1)
     \<and> compressMoreZlib_tail cfg ok done flush ret (zs_next_in c) nout c1 = Some (st, c')"
proof -
  from assms obtain p where plan: "compressMoreZlib_plan cfg c = Some p"
    and rest: "(case p of (avail, flush, done) \<Rightarrow> do {
       let oldin = zs_next_in c;
       oldout \<leftarrow> zs_next_out c;
       (ret, c1) \<leftarrow> call_deflate zl (c\<lparr>zs_avail_in := avail\<rparr>)
                    (if done then Z_FINISH else if flush then Z_FULL_FLUSH else Z_NO_FLUSH);
       compressMoreZlib_tail cfg ok done flush ret oldin oldout c1 }) = Some (st, c')"
    unfolding compressMoreZlib_def by (auto simp: bind_eq_Some_conv)
  obtain avail flush dn where p: "p = (avail, flush, dn)" by (cases p)
  from rest obtain nout r where n: "zs_next_out c = Some nout"
    and call: "call_deflate zl (c\<lparr>zs_avail_in := avail\<rparr>)
          (if dn then Z_FINISH else if flush then Z_FULL_FLUSH else Z_NO_FLUSH) = Some r"
    and tl: "(case r of (ret, c1) \<Rightarrow>
        compressMoreZlib_tail cfg ok dn flush ret (zs_next_in c) nout c1) = Some (st, c')"
    unfolding p by (auto simp: Let_def bind_eq_Some_conv)
  obtain ret c1 where r: "r = (ret, c1)" by (cases r)
  from plan n call tl show ?thesis unfolding p r by auto
qed

lemma zstd_written_Some:
  assumes "zstd_written c produced cs = Some c'"
  shows "zstdOutput_pos c \<le> zstdOutput_size c
     \<and> length produced \<le> zstdOutput_size c - zstdOutput_pos c
     \<and> (\<exists>mem. store (out_mem c) (zstdOutput_dst c + zstdOutput_pos c) produced = Some mem
           \<and> c' = c\<lparr>zstdCStream := Some cs,
                      zstdOutput_pos := zstdOutput_pos c + length produced, out_mem := mem\<rparr>)"
  using assms by (auto simp: zstd_written_def bind_eq_Some_conv split: if_splits)

lemma call_ZSTD_compressStream_Some:
  assumes "call_ZSTD_compressStream zd c src = Some (ret, consumed, c')"
  shows "\<exists>cs produced cs'. zstdCStream c = Some cs
     \<and> ZSTD_compressStream zd cs (zstdOutput_size c - zstdOutput_pos c) src
          = (ret, consumed, produced, cs')
     \<and> consumed \<le> length src \<and> zstd_written c produced cs' = Some c'"
proof -
  from assms obtain cs where cs: "zstdCStream c = Some cs"
    and rest: "(let (ret', consumed', produced, cs') =
       ZSTD_compressStream zd cs (zstdOutput_size c - zstdOutput_pos c) src
     in if consumed' \<le> length src then do {
       c'' \<leftarrow> zstd_written c produced cs';
       Some (ret', consumed', c'')
     } else None) = Some (ret, consumed, c')"
    by (auto simp: call_ZSTD_compressStream_def bind_eq_Some_conv)
  obtain ret' consumed' produced cs' where
    d: "ZSTD_compressStream zd cs (zstdOutput_size c - zstdOutput_pos c) src
          = (ret', consumed', produced, cs')"
    by (metis prod_cases4)
  from rest d cs show ?thesis
    by (auto simp: bind_eq_Some_conv split: if_splits)
qed

lemma call_ZSTD_flushStream_Some:
  assumes "call_ZSTD_flushStream zd c = Some (ret, c')"
  shows "\<exists>cs produced cs'. zstdCStream c = Some cs
     \<and> ZSTD_flushStream zd cs (zstdOutput_size c - zstdOutput_pos c) = (ret, produced, cs')
     \<and> zstd_written c produced cs' = Some c'"
proof -
  from assms obtain cs where cs: "zstdCStream c = Some cs"
    and rest: "(let (ret', produced, cs') =
       ZSTD_flushStream zd cs (zstdOutput_size c - zstdOutput_pos c)
     in do { c'' \<leftarrow> zstd_written c produced cs'; Some (ret', c'') }) = Some (ret, c')"
    by (auto simp: call_ZSTD_flushStream_def bind_eq_Some_conv)
  obtain ret' produced cs' where
    d: "ZSTD_flushStream zd cs (zstdOutput_size c - zstdOutput_pos c) = (ret', produced, cs')"
    by (metis prod_cases3)
  from rest d cs show ?thesis
    by (auto simp: bind_eq_Some_conv)
qed

lemma call_ZSTD_endStream_Some:
  assumes "call_ZSTD_endStream zd c = Some (ret, c')"
  shows "\<exists>cs produced cs'. zstdCStream c = Some cs
     \<and> ZSTD_endStream zd cs (zstdOutput_size c - zstdOutput_pos c) = (ret, produced, cs')
     \<and> zstd_written c produced cs' = Some c'"
proof -
  from assms obtain cs where cs: "zstdCStream c = Some cs"
    and rest: "(let (ret', produced, cs') =
       ZSTD_endStream zd cs (zstdOutput_size c - zstdOutput_pos c)
     in do { c'' \<leftarrow> zstd_written c produced cs'; Some (ret', c'') }) = Some (ret, c')"
    by (auto simp: call_ZSTD_endStream_def bind_eq_Some_conv)
  obtain ret' produced cs' where
    d: "ZSTD_endStream zd cs (zstdOutput_size c - zstdOutput_pos c) = (ret', produced, cs')"
    by (metis prod_cases3)
  from rest d cs show ?thesis
    by (auto simp: bind_eq_Some_conv)
qed

lemma compressMoreZstd_tail_Some:
  assumes "compressMoreZstd_tail cfg zd True dn flush oldpos ret ipos c1 = Some (st, c')"
  shows "let ob = outbytes c1 + sub_size_t (zstdOutput_pos c1) oldpos;
          ccs = currentChunkSize c1 + ipos;
          c2 = c1\<lparr>outbytes := ob, currentChunkSize := ccs,
                  zstdInputPos := zstdInputPos c1 + ipos\<rparr>
      in (st = OOM \<and> ZSTD_isError zd ret \<and> c' = c1)
       \<or> (st = MOREOUTPUT \<and> \<not> ZSTD_isError zd ret
            \<and> zstdOutput_pos c1 = zstdOutput_size c1 \<and> \<not> dn \<and> c' = c2)
       \<or> ((st = DONE \<or> st = CONTINUE) \<and> (st = DONE \<longleftrightarrow> dn)
            \<and> \<not> ZSTD_isError zd ret \<and> \<not> (zstdOutput_pos c1 = zstdOutput_size c1 \<and> \<not> dn)
            \<and> c' = (if dn \<or> ccs = CHUNK_SIZE
                     then c2\<lparr>chunkOffsets := chunkOffsets c1 @ [word_of_nat ob],
                             currentChunkSize := 0\<rparr>
                     else c2))"
  using assms
  by (auto simp: compressMoreZstd_tail_def Let_def bind_eq_Some_conv split: if_splits)

lemma compressMoreZstd_Some:
  assumes "compressMoreZstd cfg zd ok c = Some (st, c')"
  shows "\<exists>inputSize flush dn src.
     compressMoreZstd_plan cfg c = Some (inputSize, flush, dn)
     \<and> load (inp c) (zstdInputPos c) inputSize = Some src
     \<and> ((\<exists>ret ipos. (dn \<or> flush) \<and> 0 < inputSize
            \<and> call_ZSTD_compressStream zd c src = Some (ret, ipos, c')
            \<and> ZSTD_isError zd ret \<and> st = OOM)
        \<or> (\<exists>ipos c1 ret2 c2.
              (if dn \<or> flush
               then (if 0 < inputSize
                     then (\<exists>ret. call_ZSTD_compressStream zd c src = Some (ret, ipos, c1)
                             \<and> \<not> ZSTD_isError zd ret)
                     else ipos = 0 \<and> c1 = c)
                    \<and> (if dn then call_ZSTD_endStream zd c1 else call_ZSTD_flushStream zd c1)
                         = Some (ret2, c2)
               else call_ZSTD_compressStream zd c src = Some (ret2, ipos, c2))
              \<and> compressMoreZstd_tail cfg zd ok dn flush (zstdOutput_pos c) ret2 ipos c2
                   = Some (st, c')))"
proof -
  from assms obtain p where plan: "compressMoreZstd_plan cfg c = Some p"
    and rest: "(case p of (inputSize, flush, dn) \<Rightarrow> do {
     src \<leftarrow> load (inp c) (zstdInputPos c) inputSize;
     let oldOutputPos = zstdOutput_pos c;
     if dn then
       (if inputSize > 0 then do {
          (ret, ipos, c1) \<leftarrow> call_ZSTD_compressStream zd c src;
          if ZSTD_isError zd ret then Some (OOM, c1)
          else do {
            (ret, c2) \<leftarrow> call_ZSTD_endStream zd c1;
            compressMoreZstd_tail cfg zd ok dn flush oldOutputPos ret ipos c2
          }
        } else do {
          (ret, c2) \<leftarrow> call_ZSTD_endStream zd c;
          compressMoreZstd_tail cfg zd ok dn flush oldOutputPos ret 0 c2
        })
     else if flush then
       (if inputSize > 0 then do {
          (ret, ipos, c1) \<leftarrow> call_ZSTD_compressStream zd c src;
          if ZSTD_isError zd ret then Some (OOM, c1)
          else do {
            (ret, c2) \<leftarrow> call_ZSTD_flushStream zd c1;
            compressMoreZstd_tail cfg zd ok dn flush oldOutputPos ret ipos c2
          }
        } else do {
          (ret, c2) \<leftarrow> call_ZSTD_flushStream zd c;
          compressMoreZstd_tail cfg zd ok dn flush oldOutputPos ret 0 c2
        })
     else do {
       (ret, ipos, c1) \<leftarrow> call_ZSTD_compressStream zd c src;
       compressMoreZstd_tail cfg zd ok dn flush oldOutputPos ret ipos c1
     }
   }) = Some (st, c')"
    unfolding compressMoreZstd_def by (auto simp: bind_eq_Some_conv)
  obtain inputSize flush dn where p: "p = (inputSize, flush, dn)" by (cases p)
  from rest obtain src where src: "load (inp c) (zstdInputPos c) inputSize = Some src"
    unfolding p by (auto simp: bind_eq_Some_conv)
  note rest' = rest [unfolded p, simplified, unfolded src, simplified]
  consider (a) "dn" "0 < inputSize" | (b) "dn" "inputSize = 0"
    | (c) "\<not> dn" "flush" "0 < inputSize" | (d) "\<not> dn" "flush" "inputSize = 0"
    | (e) "\<not> dn" "\<not> flush" by blast
  then have "(\<exists>ret ipos. (dn \<or> flush) \<and> 0 < inputSize
            \<and> call_ZSTD_compressStream zd c src = Some (ret, ipos, c')
            \<and> ZSTD_isError zd ret \<and> st = OOM)
        \<or> (\<exists>ipos c1 ret2 c2.
              (if dn \<or> flush
               then (if 0 < inputSize
                     then (\<exists>ret. call_ZSTD_compressStream zd c src = Some (ret, ipos, c1)
                             \<and> \<not> ZSTD_isError zd ret)
                     else ipos = 0 \<and> c1 = c)
                    \<and> (if dn then call_ZSTD_endStream zd c1 else call_ZSTD_flushStream zd c1)
                         = Some (ret2, c2)
               else call_ZSTD_compressStream zd c src = Some (ret2, ipos, c2))
              \<and> compressMoreZstd_tail cfg zd ok dn flush (zstdOutput_pos c) ret2 ipos c2
                   = Some (st, c'))"
  proof cases
    case a
    with rest' show ?thesis
      by (auto simp: Let_def bind_eq_Some_conv split: if_splits)
  next
    case b
    with rest' show ?thesis
      by (auto simp: Let_def bind_eq_Some_conv split: if_splits)
  next
    case c
    with rest' show ?thesis
      by (auto simp: Let_def bind_eq_Some_conv split: if_splits)
  next
    case d
    with rest' show ?thesis
      by (auto simp: Let_def bind_eq_Some_conv split: if_splits)
  next
    case e
    with rest' show ?thesis
      by (auto simp: Let_def bind_eq_Some_conv split: if_splits)
  qed
  with plan src show ?thesis unfolding p by blast
qed

lemma compressMoreZstd_tail_done:
  assumes "compressMoreZstd_tail cfg zd ok True flush oldpos ret ipos c1 = Some (st, c')"
  shows "st = DONE \<or> st = OOM"
  using assms
  by (auto simp: compressMoreZstd_tail_def Let_def bind_eq_Some_conv split: if_splits)

subsection \<open>The accounting invariant\<close>

lemma UINT32_MAX_lt: "n < UINT32_MAX \<Longrightarrow> n < 2 ^ 32"
  by (simp add: UINT32_MAX_def)

lemma ZLIB_neq_ZSTD [simp]: "ZLIB \<noteq> ZSTD" "ZSTD \<noteq> ZLIB"
  by (simp_all add: ZLIB_def ZSTD_def)

lemma chunk_count:
  assumes "CHUNK_SIZE * k < n" "n \<le> CHUNK_SIZE * k + CHUNK_SIZE"
  shows "(n - 1) div CHUNK_SIZE = k"
proof -
  have c: "0 < CHUNK_SIZE" by (simp add: CHUNK_SIZE_def)
  have "CHUNK_SIZE * k \<le> n - 1" using assms(1) by simp
  then have "k \<le> (n - 1) div CHUNK_SIZE"
    using c by (metis div_le_mono mult.commute nonzero_mult_div_cancel_right less_not_refl)
  moreover have "n - 1 < CHUNK_SIZE * (k + 1)" using assms c by simp
  then have "(n - 1) div CHUNK_SIZE < k + 1"
    using c by (simp add: less_mult_imp_div_less mult.commute)
  ultimately show ?thesis by simp
qed

lemma zlib_step_effect:
  assumes step: "compressMoreZlib cfg zl True c = Some (st, c')"
    and alg: "algorithm_m c = ZLIB"
    and n32: "inplen c < 2 ^ 32" and pos: "zs_next_in c \<le> inplen c"
    and ccs: "currentChunkSize c \<le> CHUNK_SIZE"
    and res: "zs_avail_in c \<le> inplen c - zs_next_in c"
  shows "\<exists>offered dn consumed produced.
     offered \<le> inplen c - zs_next_in c \<and> currentChunkSize c + offered \<le> CHUNK_SIZE
     \<and> dn = (offered = inplen c - zs_next_in c) \<and> consumed \<le> offered
     \<and> zs_avail_in c' = offered - consumed
     \<and> step_effect consumed produced dn st c c'"
proof -
  from compressMoreZlib_Some [OF step] obtain avail flush dn ret c1 nout where
    plan: "compressMoreZlib_plan cfg c = Some (avail, flush, dn)"
    and nout: "zs_next_out c = Some nout"
    and call: "call_deflate zl (c\<lparr>zs_avail_in := avail\<rparr>)
          (if dn then Z_FINISH else if flush then Z_FULL_FLUSH else Z_NO_FLUSH) = Some (ret, c1)"
    and tl: "compressMoreZlib_tail cfg True dn flush ret (zs_next_in c) nout c1 = Some (st, c')"
    by blast
  note p = compressMoreZlib_plan_Some [OF plan n32 pos ccs res]
  from call_deflate_Some [OF call] obtain consumed and produced :: "byte list"
    and st1 nout' mem where
    raw: "zs_next_out (c\<lparr>zs_avail_in := avail\<rparr>) = Some nout'"
      "consumed \<le> zs_avail_in (c\<lparr>zs_avail_in := avail\<rparr>)"
      "c1 = c\<lparr>zs_avail_in := avail\<rparr>
         \<lparr>zs_next_in := zs_next_in (c\<lparr>zs_avail_in := avail\<rparr>) + consumed,
          zs_avail_in := zs_avail_in (c\<lparr>zs_avail_in := avail\<rparr>) - consumed,
          zs_next_out := Some (nout' + length produced),
          zs_avail_out := zs_avail_out (c\<lparr>zs_avail_in := avail\<rparr>) - length produced,
          zs_state := Some st1, out_mem := mem\<rparr>"
    by blast
  from raw nout have cons: "consumed \<le> avail"
    and c1: "c1 = c\<lparr>zs_next_in := zs_next_in c + consumed,
            zs_avail_in := avail - consumed,
            zs_next_out := Some (nout + length produced),
            zs_avail_out := zs_avail_out c - length produced,
            zs_state := Some st1, out_mem := mem\<rparr>"
    by simp_all
  have eff: "step_effect consumed (length produced) dn st c c'"
    using compressMoreZlib_tail_Some [OF tl] alg unfolding c1 step_effect_def input_pos_def
    by (auto simp: Let_def split: if_splits)
  have av: "zs_avail_in c' = avail - consumed"
    using compressMoreZlib_tail_Some [OF tl] unfolding c1
    by (auto simp: Let_def split: if_splits)
  from p(3,4,5) cons av eff show ?thesis by blast
qed

lemma accounting_step:
  assumes acc: "accounting input n alg lvl c"
    and eff: "step_effect consumed produced dn st c c'"
    and off: "offered \<le> n - input_pos c" "currentChunkSize c + offered \<le> CHUNK_SIZE"
      "dn = (offered = n - input_pos c)" "consumed \<le> offered"
    and zl: "alg = ZLIB \<Longrightarrow> zs_avail_in c' = offered - consumed"
  shows "st = CONTINUE \<or> st = MOREOUTPUT \<Longrightarrow> accounting input n alg lvl c'"
    and "st = DONE \<Longrightarrow> algorithm_m c' = alg \<and> level_m c' = lvl
           \<and> length (chunkOffsets c') = (n - 1) div CHUNK_SIZE + 1
           \<and> sizeof_CompressedDataHeader \<le> outbytes c'
           \<and> chunkOffsets c' = chunkOffsets c @ [word_of_nat (outbytes c')]"
proof -
  from acc have f: "algorithm_m c = alg" "level_m c = lvl" "inp c = input" "inplen c = n"
    "alg = ZLIB \<or> alg = ZSTD" "0 < n" "n < UINT32_MAX"
    and pos: "input_pos c \<le> n"
      "input_pos c = CHUNK_SIZE * length (chunkOffsets c) + currentChunkSize c"
    and ccs: "currentChunkSize c \<le> CHUNK_SIZE"
    and k: "CHUNK_SIZE * length (chunkOffsets c) < n"
    and ob: "sizeof_CompressedDataHeader \<le> outbytes c"
    by (auto simp: accounting_def)
  from eff have g: "algorithm_m c' = alg" "level_m c' = lvl" "inp c' = input" "inplen c' = n"
    "input_pos c' = input_pos c + consumed" "outbytes c' = outbytes c + produced"
    using f by (auto simp: step_effect_def)
  have zl': "(if alg = ZLIB then zs_avail_in c' \<le> n - zs_next_in c' else True)"
  proof (cases "alg = ZLIB")
    case True
    then have "zs_next_in c' = input_pos c + consumed"
      using g(1,5) by (simp add: input_pos_def)
    then show ?thesis using True zl off by simp
  next
    case False
    then show ?thesis by simp
  qed
  have ob': "sizeof_CompressedDataHeader \<le> outbytes c'" using g(6) ob by simp
  have keep: "accounting input n alg lvl c'"
    if "chunkOffsets c' = chunkOffsets c" "currentChunkSize c' = currentChunkSize c + consumed"
  proof -
    have "input_pos c' \<le> n" using g(5) off(1,4) pos(1) by simp
    moreover have "input_pos c' = CHUNK_SIZE * length (chunkOffsets c') + currentChunkSize c'"
      using g(5) pos(2) that by simp
    moreover have "currentChunkSize c' \<le> CHUNK_SIZE" using that off(2,4) by simp
    moreover have "CHUNK_SIZE * length (chunkOffsets c') < n" using that k by simp
    ultimately show ?thesis
      unfolding accounting_def using f(5,6,7) g(1-4) ob' zl' by simp
  qed
  have app: "accounting input n alg lvl c'"
    if "chunkOffsets c' = chunkOffsets c @ [word_of_nat (outbytes c')]"
      "currentChunkSize c' = 0" "currentChunkSize c + consumed = CHUNK_SIZE" "\<not> dn"
  proof -
    have lt: "consumed < n - input_pos c" using that(4) off by simp
    then have "input_pos c' < n" using g(5) by simp
    moreover have "input_pos c' = CHUNK_SIZE * length (chunkOffsets c') + currentChunkSize c'"
      using g(5) pos(2) that by simp
    ultimately show ?thesis
      unfolding accounting_def using f(5,6,7) g(1-4) ob' zl' that(2) by simp
  qed
  have mo: "accounting input n alg lvl c'" if "st = MOREOUTPUT"
    using that eff by (intro keep) (auto simp: step_effect_def)
  have co: "accounting input n alg lvl c'" if st: "st = CONTINUE"
  proof (cases "currentChunkSize c + consumed = CHUNK_SIZE")
    case True
    with eff st show ?thesis by (intro app) (auto simp: step_effect_def)
  next
    case False
    with eff st show ?thesis by (intro keep) (auto simp: step_effect_def)
  qed
  show "st = CONTINUE \<or> st = MOREOUTPUT \<Longrightarrow> accounting input n alg lvl c'"
    using mo co by blast
  show "algorithm_m c' = alg \<and> level_m c' = lvl
           \<and> length (chunkOffsets c') = (n - 1) div CHUNK_SIZE + 1
           \<and> sizeof_CompressedDataHeader \<le> outbytes c'
           \<and> chunkOffsets c' = chunkOffsets c @ [word_of_nat (outbytes c')]" if st: "st = DONE"
  proof -
    from eff st have dn: "dn"
      and co: "chunkOffsets c' = chunkOffsets c @ [word_of_nat (outbytes c')]"
      by (auto simp: step_effect_def)
    have "n \<le> CHUNK_SIZE * length (chunkOffsets c) + CHUNK_SIZE"
      using dn off pos by simp
    from chunk_count [OF k this] show ?thesis
      using g ob co by simp
  qed
qed

lemma compressMoreZstd_plan_Some:
  assumes plan: "compressMoreZstd_plan cfg c = Some (inputSize, flush, dn)"
    and n: "inplen c < 2 ^ 32" and pos: "zstdInputPos c \<le> inplen c"
    and ccs: "currentChunkSize c \<le> CHUNK_SIZE"
  defines "left \<equiv> inplen c - zstdInputPos c"
  defines "base \<equiv> (if left \<le> MAX_INPUT_SIZE cfg then left else MAX_INPUT_SIZE cfg)"
  shows "flush = (CHUNK_SIZE \<le> currentChunkSize c + base)"
    and "inputSize = (if flush then CHUNK_SIZE - currentChunkSize c else base)"
    and "dn = (inputSize = left)"
    and "inputSize \<le> left" and "currentChunkSize c + inputSize \<le> CHUNK_SIZE"
proof -
  have "(2::nat) ^ 32 < 2 ^ 64" by simp
  with n have "inplen c < 2 ^ 64" by (rule less_trans)
  with pos have l: "sub_size_t (inplen c) (zstdInputPos c) = left"
    unfolding left_def by (rule sub_size_t_eq)
  have r: "sub_size_t CHUNK_SIZE (currentChunkSize c) = CHUNK_SIZE - currentChunkSize c"
    using chunk_room_eq [OF ccs] by simp
  from plan have eqs: "flush = (CHUNK_SIZE \<le> currentChunkSize c + base)"
      "inputSize = (if flush then CHUNK_SIZE - currentChunkSize c else base)"
      "dn = (inputSize = left)"
    unfolding compressMoreZstd_plan_def Let_def l r base_def [symmetric]
    by (auto simp: bind_eq_Some_conv)
  show "flush = (CHUNK_SIZE \<le> currentChunkSize c + base)" by (rule eqs)
  show "inputSize = (if flush then CHUNK_SIZE - currentChunkSize c else base)" by (rule eqs)
  show "dn = (inputSize = left)" by (rule eqs)
  have "base \<le> left" by (auto simp: base_def)
  then show "inputSize \<le> left" using eqs(1,2) by auto
  show "currentChunkSize c + inputSize \<le> CHUNK_SIZE" using eqs(1,2) ccs by auto
qed

lemma zstd_written_fields:
  assumes "zstd_written c produced cs = Some c'"
  shows "algorithm_m c' = algorithm_m c" "level_m c' = level_m c" "inp c' = inp c"
    "inplen c' = inplen c" "zstdInputPos c' = zstdInputPos c" "outbytes c' = outbytes c"
    "chunkOffsets c' = chunkOffsets c" "currentChunkSize c' = currentChunkSize c"
    "zstdOutput_size c' = zstdOutput_size c" "zstdOutput_dst c' = zstdOutput_dst c"
    "zstdOutput_pos c' = zstdOutput_pos c + length produced"
    "zstdOutput_pos c' \<le> zstdOutput_size c" "zstdCStream c' = Some cs"
    "zs_next_in c' = zs_next_in c" "zs_avail_in c' = zs_avail_in c"
  using zstd_written_Some [OF assms] by auto

lemma load_length: "load mem off n = Some bs \<Longrightarrow> length bs = n"
  by (auto simp: load_def split: if_splits)

lemma zstd_tail_effect:
  assumes tl: "compressMoreZstd_tail cfg zd True dn flush oldpos ret ipos c2 = Some (st, c')"
    and st: "st \<noteq> OOM" and alg: "algorithm_m c2 \<noteq> ZLIB"
  shows "step_effect ipos (sub_size_t (zstdOutput_pos c2) oldpos) dn st c2 c'"
  using compressMoreZstd_tail_Some [OF tl] st alg unfolding step_effect_def input_pos_def
  by (auto simp: Let_def split: if_splits)

lemma step_effect_pre:
  assumes "step_effect consumed produced dn st c2 c'"
    and "algorithm_m c2 = algorithm_m c" "level_m c2 = level_m c" "inp c2 = inp c"
    "inplen c2 = inplen c" "input_pos c2 = input_pos c" "outbytes c2 = outbytes c"
    "chunkOffsets c2 = chunkOffsets c" "currentChunkSize c2 = currentChunkSize c"
  shows "step_effect consumed produced dn st c c'"
  using assms unfolding step_effect_def by (cases st) auto

lemma zstd_step_effect:
  assumes step: "compressMoreZstd cfg zd True c = Some (st, c')"
    and st: "st \<noteq> OOM"
    and alg: "algorithm_m c \<noteq> ZLIB"
    and n32: "inplen c < 2 ^ 32" and pos: "zstdInputPos c \<le> inplen c"
    and ccs: "currentChunkSize c \<le> CHUNK_SIZE"
  shows "\<exists>offered dn consumed produced.
     offered \<le> inplen c - zstdInputPos c \<and> currentChunkSize c + offered \<le> CHUNK_SIZE
     \<and> dn = (offered = inplen c - zstdInputPos c) \<and> consumed \<le> offered
     \<and> step_effect consumed produced dn st c c'"
proof -
  from compressMoreZstd_Some [OF step] st obtain inputSize flush dn src ipos c1 ret2 c2 where
    plan: "compressMoreZstd_plan cfg c = Some (inputSize, flush, dn)"
    and src: "load (inp c) (zstdInputPos c) inputSize = Some src"
    and feed: "if dn \<or> flush
               then (if 0 < inputSize
                     then (\<exists>ret. call_ZSTD_compressStream zd c src = Some (ret, ipos, c1)
                             \<and> \<not> ZSTD_isError zd ret)
                     else ipos = 0 \<and> c1 = c)
                    \<and> (if dn then call_ZSTD_endStream zd c1 else call_ZSTD_flushStream zd c1)
                         = Some (ret2, c2)
               else call_ZSTD_compressStream zd c src = Some (ret2, ipos, c2)"
    and tl: "compressMoreZstd_tail cfg zd True dn flush (zstdOutput_pos c) ret2 ipos c2
                   = Some (st, c')"
    by blast
  note p = compressMoreZstd_plan_Some [OF plan n32 pos ccs]
  have len: "length src = inputSize" using src by (rule load_length)
  have fr: "ipos \<le> inputSize \<and> algorithm_m c2 = algorithm_m c \<and> level_m c2 = level_m c
      \<and> inp c2 = inp c \<and> inplen c2 = inplen c \<and> zstdInputPos c2 = zstdInputPos c
      \<and> outbytes c2 = outbytes c \<and> chunkOffsets c2 = chunkOffsets c
      \<and> currentChunkSize c2 = currentChunkSize c"
  proof (cases "dn \<or> flush")
    case True
    with feed have a: "if 0 < inputSize
                     then (\<exists>ret. call_ZSTD_compressStream zd c src = Some (ret, ipos, c1))
                     else ipos = 0 \<and> c1 = c"
      and b: "(if dn then call_ZSTD_endStream zd c1 else call_ZSTD_flushStream zd c1)
                         = Some (ret2, c2)"
      by (auto split: if_splits)
    have a': "ipos \<le> inputSize \<and> algorithm_m c1 = algorithm_m c \<and> level_m c1 = level_m c
      \<and> inp c1 = inp c \<and> inplen c1 = inplen c \<and> zstdInputPos c1 = zstdInputPos c
      \<and> outbytes c1 = outbytes c \<and> chunkOffsets c1 = chunkOffsets c
      \<and> currentChunkSize c1 = currentChunkSize c"
    proof (cases "0 < inputSize")
      case True
      with a obtain ret where "call_ZSTD_compressStream zd c src = Some (ret, ipos, c1)"
        by auto
      from call_ZSTD_compressStream_Some [OF this] len show ?thesis
        by (auto dest: zstd_written_fields)
    next
      case False
      with a show ?thesis by simp
    qed
    have "\<exists>produced cs'. zstd_written c1 produced cs' = Some c2"
      using b call_ZSTD_endStream_Some call_ZSTD_flushStream_Some
      by (cases dn) (simp; blast)+
    then obtain produced cs' where "zstd_written c1 produced cs' = Some c2" by blast
    from zstd_written_fields [OF this] a' show ?thesis by simp
  next
    case False
    with feed have "call_ZSTD_compressStream zd c src = Some (ret2, ipos, c2)" by simp
    from call_ZSTD_compressStream_Some [OF this] len show ?thesis
      by (auto dest: zstd_written_fields)
  qed
  have alg2: "algorithm_m c2 \<noteq> ZLIB" using fr alg by simp
  have "input_pos c2 = input_pos c" using fr alg by (simp add: input_pos_def)
  with fr
  have eff: "step_effect ipos (sub_size_t (zstdOutput_pos c2) (zstdOutput_pos c)) dn st c c'"
    by (intro step_effect_pre [OF zstd_tail_effect [OF tl st alg2]]) simp_all
  have ip: "ipos \<le> inputSize" using fr by simp
  show ?thesis
    by (rule exI [of _ inputSize], rule exI [of _ dn], rule exI [of _ ipos],
        rule exI [of _ "sub_size_t (zstdOutput_pos c2) (zstdOutput_pos c)"])
       (use p(3,4,5) ip eff in simp)
qed

lemma Compressor_ctor_Some:
  assumes "Compressor_ctor cfg input n alg lvl = Some c0"
  shows "c0 = \<lparr>algorithm_m = alg, level_m = lvl, inp = input, inplen = n,
           initialized = False, finished = False, currentChunkSize = 0,
           outbytes = sizeof_CompressedDataHeader, chunkOffsets = [],
           zs_next_in = 0, zs_avail_in = 0, zs_next_out = None, zs_avail_out = 0,
           zs_state = None, zstdCStream = None,
           zstdOutput_dst = 0, zstdOutput_size = 0, zstdOutput_pos = 0,
           zstdInputPos = 0, out_mem = []\<rparr>"
  using assms by (auto simp: Compressor_ctor_def bind_eq_Some_conv)

lemma init_True:
  assumes "init cfg zl zd c = Some (True, c')"
  shows "inplen c < UINT32_MAX \<and>
     ((algorithm_m c = ZLIB \<and> (\<exists>st. c' = c\<lparr>zs_state := Some st, initialized := True\<rparr>))
      \<or> (algorithm_m c = ZSTD \<and> (\<exists>cs. c' = c\<lparr>zstdCStream := Some cs, initialized := True\<rparr>)))"
proof -
  have lt: "inplen c < UINT32_MAX"
    using assms by (simp add: init_def split: if_splits)
  show ?thesis
  proof (cases "algorithm_m c = ZLIB")
    case True
    with assms lt show ?thesis
      by (auto simp: init_def Let_def bind_eq_Some_conv split: if_splits prod.splits)
  next
    case False
    with assms lt show ?thesis
      by (auto simp: init_def Let_def split: if_splits option.splits prod.splits)
  qed
qed

lemma setOutput_Some:
  assumes "setOutput cfg c out outlen = Some c'"
  shows "c' = (if algorithm_m c = ZLIB then
             c\<lparr>out_mem := out, zs_next_out := Some (outbytes c),
               zs_avail_out := to_uInt (sub_size_t outlen (outbytes c))\<rparr>
           else if algorithm_m c = ZSTD then
             c\<lparr>out_mem := out, zstdOutput_dst := outbytes c,
               zstdOutput_size := sub_size_t outlen (outbytes c), zstdOutput_pos := 0\<rparr>
           else c)"
  using assms by (auto simp: setOutput_def bind_eq_Some_conv)

lemma accounting_setOutput:
  assumes "accounting input n alg lvl c" "setOutput cfg c out outlen = Some c'"
  shows "accounting input n alg lvl c'"
  using assms(1) unfolding setOutput_Some [OF assms(2)] accounting_def input_pos_def
  by auto

lemma accounting_start:
  assumes ctor: "Compressor_ctor cfg input n alg lvl = Some c0" and n: "0 < n"
    and ini: "init cfg zl zd c0 = Some (True, c1)"
  shows "accounting input n alg lvl c1"
proof -
  note c0 = Compressor_ctor_Some [OF ctor]
  from init_True [OF ini] have lt: "n < UINT32_MAX"
    and d: "(alg = ZLIB \<and> (\<exists>st. c1 = c0\<lparr>zs_state := Some st, initialized := True\<rparr>))
      \<or> (alg = ZSTD \<and> (\<exists>cs. c1 = c0\<lparr>zstdCStream := Some cs, initialized := True\<rparr>))"
    unfolding c0 by simp_all
  from d show ?thesis
  proof (elim disjE conjE exE)
    fix st assume "alg = ZLIB" "c1 = c0\<lparr>zs_state := Some st, initialized := True\<rparr>"
    then show ?thesis unfolding accounting_def input_pos_def c0 using n lt by simp
  next
    fix cs assume "alg = ZSTD" "c1 = c0\<lparr>zstdCStream := Some cs, initialized := True\<rparr>"
    then show ?thesis unfolding accounting_def input_pos_def c0 using n lt by simp
  qed
qed

lemma accounting_compressMore:
  assumes acc: "accounting input n alg lvl c"
    and step: "compressMore cfg zl zd True c = Some (st, c')"
  shows "st = CONTINUE \<or> st = MOREOUTPUT \<Longrightarrow> accounting input n alg lvl c'"
    and "st = DONE \<Longrightarrow> algorithm_m c' = alg \<and> level_m c' = lvl
           \<and> length (chunkOffsets c') = (n - 1) div CHUNK_SIZE + 1
           \<and> sizeof_CompressedDataHeader \<le> outbytes c'
           \<and> chunkOffsets c' = chunkOffsets c @ [word_of_nat (outbytes c')]"
proof -
  from acc have f: "algorithm_m c = alg" "inplen c = n" "alg = ZLIB \<or> alg = ZSTD"
    "n < UINT32_MAX" "input_pos c \<le> n" "currentChunkSize c \<le> CHUNK_SIZE"
    "if alg = ZLIB then zs_avail_in c \<le> n - zs_next_in c else True"
    by (auto simp: accounting_def)
  have n32: "inplen c < 2 ^ 32" using UINT32_MAX_lt [OF f(4)] f(2) by (simp only:)
  have "\<exists>offered dn consumed produced.
     offered \<le> n - input_pos c \<and> currentChunkSize c + offered \<le> CHUNK_SIZE
     \<and> dn = (offered = n - input_pos c) \<and> consumed \<le> offered
     \<and> (alg = ZLIB \<longrightarrow> zs_avail_in c' = offered - consumed)
     \<and> (st \<noteq> OOM \<longrightarrow> step_effect consumed produced dn st c c')"
  proof (cases "alg = ZLIB")
    case True
    then have z: "compressMoreZlib cfg zl True c = Some (st, c')"
      using step f(1) by (simp add: compressMore_def)
    have "zs_next_in c = input_pos c" using True f(1) by (simp add: input_pos_def)
    with zlib_step_effect [OF z _ n32] f True show ?thesis by fastforce
  next
    case False
    then have a: "alg = ZSTD" using f(3) by simp
    then have z: "compressMoreZstd cfg zd True c = Some (st, c')"
      using step f(1) by (simp add: compressMore_def)
    have p: "zstdInputPos c = input_pos c" using a f(1) by (simp add: input_pos_def)
    show ?thesis
    proof (cases "st = OOM")
      case True
      show ?thesis
        by (rule exI [of _ 0], rule exI [of _ "0 = n - input_pos c"], rule exI [of _ 0],
            rule exI [of _ 0]) (use True a f(6) in simp)
    next
      case ns: False
      have "algorithm_m c \<noteq> ZLIB" using a f(1) by simp
      from zstd_step_effect [OF z ns this n32] p f a ns show ?thesis by fastforce
    qed
  qed
  then obtain offered dn consumed produced where
    o: "offered \<le> n - input_pos c" "currentChunkSize c + offered \<le> CHUNK_SIZE"
     "dn = (offered = n - input_pos c)" "consumed \<le> offered"
     "alg = ZLIB \<Longrightarrow> zs_avail_in c' = offered - consumed"
     and e: "st \<noteq> OOM \<Longrightarrow> step_effect consumed produced dn st c c'"
    by blast
  show "st = CONTINUE \<or> st = MOREOUTPUT \<Longrightarrow> accounting input n alg lvl c'"
    using accounting_step(1) [OF acc e o] by auto
  show "st = DONE \<Longrightarrow> algorithm_m c' = alg \<and> level_m c' = lvl
           \<and> length (chunkOffsets c') = (n - 1) div CHUNK_SIZE + 1
           \<and> sizeof_CompressedDataHeader \<le> outbytes c'
           \<and> chunkOffsets c' = chunkOffsets c @ [word_of_nat (outbytes c')]"
    using accounting_step(2) [OF acc e o] by auto
qed

lemma running_accounting:
  assumes "running cfg zl zd input n alg lvl c"
  shows "accounting input n alg lvl c"
  using assms
proof (induction rule: running.induct)
  case (start c0 c1 outlen out c)
  from accounting_start [OF start(1,2,3)] start(6) show ?case
    by (rule accounting_setOutput)
next
  case (continue c c')
  from accounting_compressMore(1) [OF continue(3,2)] show ?case by simp
next
  case (more_output c c1 outlen out c')
  from accounting_compressMore(1) [OF more_output(6,2)] have "accounting input n alg lvl c1"
    by simp
  then show ?case using more_output(5) by (rule accounting_setOutput)
qed

lemma completed_accounting:
  assumes "completed cfg zl zd input n alg lvl c"
  shows "algorithm_m c = alg \<and> level_m c = lvl
           \<and> length (chunkOffsets c) = (n - 1) div CHUNK_SIZE + 1
           \<and> sizeof_CompressedDataHeader \<le> outbytes c"
  using assms
proof cases
  case (last_step c0)
  from accounting_compressMore(2) [OF running_accounting [OF last_step(1)] last_step(2)]
  show ?thesis by blast
qed

subsection \<open>The offsets increase\<close>

lemma sorted_wrt_snoc_last:
  assumes "sorted_wrt (<) (a # ks)" "last (a # ks) < (k :: nat)"
  shows "sorted_wrt (<) (a # ks @ [k])"
proof -
  have "\<forall>x \<in> set (a # ks). x \<le> last (a # ks)"
    using assms(1)
  proof (induction ks arbitrary: a)
    case Nil
    then show ?case by simp
  next
    case (Cons b ks)
    then have "\<forall>x \<in> set (b # ks). x \<le> last (b # ks)" by simp
    moreover from Cons.prems have "a < b" by simp
    moreover have "b \<le> last (b # ks)" using calculation(1) by simp
    ultimately show ?case by auto
  qed
  then have "\<forall>x \<in> set (a # ks). x < k" using assms(2) by auto
  with assms(1) show ?thesis
    using sorted_wrt_append [of "(<)" "a # ks" "[k]"] by simp
qed

lemma chunk_progress_step:
  assumes cp: "chunk_progress pz ps ks c"
    and eff: "step_effect consumed produced dn st c c'"
    and grow: "st \<noteq> DONE \<Longrightarrow> 0 < consumed \<or> 0 < pending pz ps c
               \<Longrightarrow> 0 < produced \<or> 0 < pending pz ps c'"
    and app: "st = DONE \<or> st = CONTINUE \<and> currentChunkSize c + consumed = CHUNK_SIZE
              \<Longrightarrow> last (sizeof_CompressedDataHeader # ks) < outbytes c + produced"
  shows "st = MOREOUTPUT \<or> st = CONTINUE \<Longrightarrow> \<exists>ks'. chunk_progress pz ps ks' c'"
    and "st = DONE \<Longrightarrow> \<exists>ks'. chunkOffsets c' = map word_of_nat ks'
           \<and> sorted_wrt (<) (sizeof_CompressedDataHeader # ks')
           \<and> last (sizeof_CompressedDataHeader # ks') = outbytes c'"
proof -
  let ?h = sizeof_CompressedDataHeader
  from cp have co: "chunkOffsets c = map word_of_nat ks"
    and so: "sorted_wrt (<) (?h # ks)" and le: "last (?h # ks) \<le> outbytes c"
    and j3: "0 < currentChunkSize c \<Longrightarrow> last (?h # ks) < outbytes c \<or> 0 < pending pz ps c"
    by (simp_all add: chunk_progress_def)
  from eff have ob: "outbytes c' = outbytes c + produced" by (simp add: step_effect_def)
  have keep: "chunk_progress pz ps ks c'"
    if "chunkOffsets c' = chunkOffsets c" "currentChunkSize c' = currentChunkSize c + consumed"
      and nd: "st \<noteq> DONE"
  proof -
    note grow = grow [OF nd]
    have "last (?h # ks) < outbytes c' \<or> 0 < pending pz ps c'" if "0 < currentChunkSize c'"
    proof (cases "0 < currentChunkSize c")
      case True
      from j3 [OF this] show ?thesis
      proof
        assume "last (?h # ks) < outbytes c"
        then show ?thesis using ob by simp
      next
        assume "0 < pending pz ps c"
        then have "0 < produced \<or> 0 < pending pz ps c'" using grow by simp
        then show ?thesis using le ob by auto
      qed
    next
      case False
      with that \<open>currentChunkSize c' = currentChunkSize c + consumed\<close> have "0 < consumed"
        by simp
      then have "0 < produced \<or> 0 < pending pz ps c'" using grow by simp
      then show ?thesis using le ob by auto
    qed
    then show ?thesis
      using that(1) co so le ob unfolding chunk_progress_def by auto
  qed
  have add: "chunk_progress pz ps (ks @ [outbytes c']) c'
      \<and> sorted_wrt (<) (?h # ks @ [outbytes c'])
      \<and> last (?h # ks @ [outbytes c']) = outbytes c'
      \<and> chunkOffsets c' = map word_of_nat (ks @ [outbytes c'])"
    if a: "chunkOffsets c' = chunkOffsets c @ [word_of_nat (outbytes c')]"
      "currentChunkSize c' = 0"
      and b: "st = DONE \<or> st = CONTINUE \<and> currentChunkSize c + consumed = CHUNK_SIZE"
  proof -
    from app [OF b] ob have "last (?h # ks) < outbytes c'" by simp
    with so have "sorted_wrt (<) (?h # ks @ [outbytes c'])" by (rule sorted_wrt_snoc_last)
    then show ?thesis using a co unfolding chunk_progress_def by simp
  qed
  show "\<exists>ks'. chunk_progress pz ps ks' c'" if "st = MOREOUTPUT \<or> st = CONTINUE"
    using that
  proof
    assume "st = MOREOUTPUT"
    with eff have "chunkOffsets c' = chunkOffsets c"
      "currentChunkSize c' = currentChunkSize c + consumed"
      by (simp_all add: step_effect_def)
    from keep [OF this] \<open>st = MOREOUTPUT\<close> show ?thesis by auto
  next
    assume st: "st = CONTINUE"
    show ?thesis
    proof (cases "currentChunkSize c + consumed = CHUNK_SIZE")
      case True
      with st eff have "chunkOffsets c' = chunkOffsets c @ [word_of_nat (outbytes c')]"
        "currentChunkSize c' = 0"
        by (simp_all add: step_effect_def)
      from add [OF this] st True show ?thesis by blast
    next
      case False
      with st eff have "chunkOffsets c' = chunkOffsets c"
        "currentChunkSize c' = currentChunkSize c + consumed"
        by (simp_all add: step_effect_def)
      from keep [OF this] st show ?thesis by auto
    qed
  qed
  show "\<exists>ks'. chunkOffsets c' = map word_of_nat ks'
           \<and> sorted_wrt (<) (?h # ks') \<and> last (?h # ks') = outbytes c'" if "st = DONE"
  proof -
    from that eff have "chunkOffsets c' = chunkOffsets c @ [word_of_nat (outbytes c')]"
        "currentChunkSize c' = 0"
      by (simp_all add: step_effect_def)
    from add [OF this] that show ?thesis by blast
  qed
qed

lemma zlib_step_backend:
  assumes step: "compressMoreZlib cfg zl True c = Some (st, c')"
    and alg: "algorithm_m c = ZLIB"
    and n32: "inplen c < 2 ^ 32" and pos: "zs_next_in c \<le> inplen c"
    and ccs: "currentChunkSize c \<le> CHUNK_SIZE"
    and res: "zs_avail_in c \<le> inplen c - zs_next_in c"
  shows "\<exists>offered flush dn consumed produced st0 st1 ret input.
     compressMoreZlib_plan cfg c = Some (offered, flush, dn)
     \<and> offered \<le> inplen c - zs_next_in c \<and> currentChunkSize c + offered \<le> CHUNK_SIZE
     \<and> dn = (offered = inplen c - zs_next_in c) \<and> consumed \<le> offered
     \<and> zs_avail_in c' = offered - consumed
     \<and> step_effect consumed (length produced) dn st c c'
     \<and> (\<not> flush \<longrightarrow> currentChunkSize c + offered < CHUNK_SIZE)
     \<and> zs_state c = Some st0 \<and> zs_state c' = Some st1 \<and> length input = offered
     \<and> deflate zl st0 input (zs_avail_out c)
          (if dn then Z_FINISH else if flush then Z_FULL_FLUSH else Z_NO_FLUSH)
        = (ret, consumed, produced, st1)
     \<and> length produced \<le> zs_avail_out c
     \<and> (st \<noteq> OOM \<longrightarrow> zs_avail_out c' = zs_avail_out c - length produced)
     \<and> (st = DONE \<or> st = CONTINUE \<longrightarrow>
          ret \<noteq> Z_MEM_ERROR \<and> ret \<noteq> Z_BUF_ERROR
          \<and> \<not> (ret = Z_OK \<and> length produced = zs_avail_out c))"
proof -
  from compressMoreZlib_Some [OF step] obtain avail flush dn ret c1 nout where
    plan: "compressMoreZlib_plan cfg c = Some (avail, flush, dn)"
    and nout: "zs_next_out c = Some nout"
    and call: "call_deflate zl (c\<lparr>zs_avail_in := avail\<rparr>)
          (if dn then Z_FINISH else if flush then Z_FULL_FLUSH else Z_NO_FLUSH) = Some (ret, c1)"
    and tl: "compressMoreZlib_tail cfg True dn flush ret (zs_next_in c) nout c1 = Some (st, c')"
    by blast
  note p = compressMoreZlib_plan_Some [OF plan n32 pos ccs res]
  from call_deflate_Some [OF call] obtain consumed and produced :: "byte list"
    and st0 st1 nout' mem where
    raw: "zs_next_out (c\<lparr>zs_avail_in := avail\<rparr>) = Some nout'"
      "consumed \<le> zs_avail_in (c\<lparr>zs_avail_in := avail\<rparr>)"
      "c1 = c\<lparr>zs_avail_in := avail\<rparr>
         \<lparr>zs_next_in := zs_next_in (c\<lparr>zs_avail_in := avail\<rparr>) + consumed,
          zs_avail_in := zs_avail_in (c\<lparr>zs_avail_in := avail\<rparr>) - consumed,
          zs_next_out := Some (nout' + length produced),
          zs_avail_out := zs_avail_out (c\<lparr>zs_avail_in := avail\<rparr>) - length produced,
          zs_state := Some st1, out_mem := mem\<rparr>"
      and raw2: "zs_state (c\<lparr>zs_avail_in := avail\<rparr>) = Some st0"
      "zs_next_in (c\<lparr>zs_avail_in := avail\<rparr>) + zs_avail_in (c\<lparr>zs_avail_in := avail\<rparr>)
         \<le> length (inp (c\<lparr>zs_avail_in := avail\<rparr>))"
      "deflate zl st0 (take (zs_avail_in (c\<lparr>zs_avail_in := avail\<rparr>))
                        (drop (zs_next_in (c\<lparr>zs_avail_in := avail\<rparr>))
                           (inp (c\<lparr>zs_avail_in := avail\<rparr>))))
         (zs_avail_out (c\<lparr>zs_avail_in := avail\<rparr>))
         (if dn then Z_FINISH else if flush then Z_FULL_FLUSH else Z_NO_FLUSH)
       = (ret, consumed, produced, st1)"
      "length produced \<le> zs_avail_out (c\<lparr>zs_avail_in := avail\<rparr>)"
    by blast
  from raw nout have cons: "consumed \<le> avail"
    and c1: "c1 = c\<lparr>zs_next_in := zs_next_in c + consumed,
            zs_avail_in := avail - consumed,
            zs_next_out := Some (nout + length produced),
            zs_avail_out := zs_avail_out c - length produced,
            zs_state := Some st1, out_mem := mem\<rparr>"
    by simp_all
  from raw2 have st0: "zs_state c = Some st0"
    and fits: "zs_next_in c + avail \<le> length (inp c)"
    and d: "deflate zl st0 (take avail (drop (zs_next_in c) (inp c))) (zs_avail_out c)
         (if dn then Z_FINISH else if flush then Z_FULL_FLUSH else Z_NO_FLUSH)
       = (ret, consumed, produced, st1)"
    and room: "length produced \<le> zs_avail_out c"
    by simp_all
  have len: "length (take avail (drop (zs_next_in c) (inp c))) = avail"
    using fits by simp
  have eff: "step_effect consumed (length produced) dn st c c'"
    using compressMoreZlib_tail_Some [OF tl] alg unfolding c1 step_effect_def input_pos_def
    by (auto simp: Let_def split: if_splits)
  have av: "zs_avail_in c' = avail - consumed" and st1: "zs_state c' = Some st1"
    using compressMoreZlib_tail_Some [OF tl] unfolding c1
    by (auto simp: Let_def split: if_splits)
  have fin: "st = DONE \<or> st = CONTINUE \<longrightarrow>
          ret \<noteq> Z_MEM_ERROR \<and> ret \<noteq> Z_BUF_ERROR
          \<and> \<not> (ret = Z_OK \<and> length produced = zs_avail_out c)"
    using compressMoreZlib_tail_Some [OF tl] room unfolding c1
    by (auto simp: Let_def split: if_splits)
  have ao: "st \<noteq> OOM \<longrightarrow> zs_avail_out c' = zs_avail_out c - length produced"
    using compressMoreZlib_tail_Some [OF tl] unfolding c1
    by (auto simp: Let_def split: if_splits)
  have nf: "\<not> flush \<longrightarrow> currentChunkSize c + avail < CHUNK_SIZE"
    using p(1,2) by auto
  show ?thesis
    by (rule exI [of _ avail], rule exI [of _ flush], rule exI [of _ dn],
        rule exI [of _ consumed], rule exI [of _ produced], rule exI [of _ st0],
        rule exI [of _ st1], rule exI [of _ ret],
        rule exI [of _ "take avail (drop (zs_next_in c) (inp c))"])
      (use plan p(3,4,5) cons av eff nf st0 st1 len d room ao fin in \<open>simp only: simp_thms\<close>)
qed

lemma zlib_progress_step:
  assumes acc: "accounting input n alg lvl c" and alg: "alg = ZLIB"
    and cp: "chunk_progress pz ps ks c"
    and zp: "zlib_progress zl pz"
    and step: "compressMore cfg zl zd True c = Some (st, c')"
  shows "st = MOREOUTPUT \<or> st = CONTINUE \<Longrightarrow> \<exists>ks'. chunk_progress pz ps ks' c'"
    and "st = DONE \<Longrightarrow> \<exists>ks'. chunkOffsets c' = map word_of_nat ks'
           \<and> sorted_wrt (<) (sizeof_CompressedDataHeader # ks')
           \<and> last (sizeof_CompressedDataHeader # ks') = outbytes c'"
proof -
  let ?h = sizeof_CompressedDataHeader
  from acc alg have f: "algorithm_m c = ZLIB" "inplen c = n" "n < UINT32_MAX" "input_pos c \<le> n"
    "input_pos c = CHUNK_SIZE * length (chunkOffsets c) + currentChunkSize c"
    "currentChunkSize c \<le> CHUNK_SIZE" "CHUNK_SIZE * length (chunkOffsets c) < n"
    "zs_avail_in c \<le> n - zs_next_in c"
    by (simp_all add: accounting_def)
  have ip: "input_pos c = zs_next_in c" using f(1) by (simp add: input_pos_def)
  have n32: "inplen c < 2 ^ 32" using UINT32_MAX_lt [OF f(3)] f(2) by (simp only:)
  have pos: "zs_next_in c \<le> inplen c" using f(4) ip f(2) by simp
  have res: "zs_avail_in c \<le> inplen c - zs_next_in c" using f(8) f(2) by simp
  from step f(1) have s: "compressMoreZlib cfg zl True c = Some (st, c')"
    by (simp add: compressMore_def)
  from zlib_step_backend [OF s f(1) n32 pos f(6) res]
  obtain offered flush dn consumed and produced :: "byte list" and st0 st1 ret input where
    o: "currentChunkSize c + offered \<le> CHUNK_SIZE" "dn = (offered = inplen c - zs_next_in c)"
      "consumed \<le> offered"
    and eff: "step_effect consumed (length produced) dn st c c'"
    and nf: "\<not> flush \<longrightarrow> currentChunkSize c + offered < CHUNK_SIZE"
    and s0: "zs_state c = Some st0" and s1: "zs_state c' = Some st1"
    and len: "length input = offered"
    and d: "deflate zl st0 input (zs_avail_out c)
          (if dn then Z_FINISH else if flush then Z_FULL_FLUSH else Z_NO_FLUSH)
        = (ret, consumed, produced, st1)"
    and room: "length produced \<le> zs_avail_out c"
    and fin: "st = DONE \<or> st = CONTINUE \<longrightarrow>
          ret \<noteq> Z_MEM_ERROR \<and> ret \<noteq> Z_BUF_ERROR
          \<and> \<not> (ret = Z_OK \<and> length produced = zs_avail_out c)"
    by blast
  note z = zp [unfolded zlib_progress_def, rule_format, OF d]
  note z0 = z [THEN conjunct1] and z2 = z [THEN conjunct2, THEN conjunct1]
    and z3 = z [THEN conjunct2, THEN conjunct2]
  from eff have a': "algorithm_m c' = ZLIB" using f(1) by (simp add: step_effect_def)
  have p0: "pending pz ps c = pz st0" using f(1) s0 by (simp add: pending_def)
  have p1: "pending pz ps c' = pz st1" using a' s1 by (simp add: pending_def)
  from cp have le: "last (?h # ks) \<le> outbytes c"
    and j3: "0 < currentChunkSize c \<Longrightarrow> last (?h # ks) < outbytes c \<or> 0 < pending pz ps c"
    by (simp_all add: chunk_progress_def)
  have grow: "0 < length produced \<or> 0 < pending pz ps c'"
    if "0 < consumed \<or> 0 < pending pz ps c"
    using that z2 p0 p1 by auto
  then have grow': "0 < length produced \<or> 0 < pending pz ps c'"
    if "st \<noteq> DONE" "0 < consumed \<or> 0 < pending pz ps c"
    using that by simp
  have app: "last (?h # ks) < outbytes c + length produced"
    if a: "st = DONE \<or> st = CONTINUE \<and> currentChunkSize c + consumed = CHUNK_SIZE"
  proof -
    from a eff have dn: "st = DONE \<longrightarrow> dn" "st = CONTINUE \<longrightarrow> \<not> dn"
      by (auto simp: step_effect_def)
    have fl: "(if dn then Z_FINISH else if flush then Z_FULL_FLUSH else Z_NO_FLUSH) \<noteq> Z_NO_FLUSH"
      using a dn nf o(3) by (auto simp: Z_FINISH_def Z_FULL_FLUSH_def Z_NO_FLUSH_def)
    from a fin z0 room have "ret = Z_STREAM_END \<or> ret = Z_OK \<and> length produced < zs_avail_out c"
      by auto
    with fl z3 have all: "consumed = offered" and none: "pz st1 = 0" using len by auto
    have tot: "0 < currentChunkSize c + consumed"
    proof (cases "st = DONE")
      case True
      with dn o(2) all have "consumed = n - zs_next_in c" using f(2) by simp
      then show ?thesis using f(5,7) ip by linarith
    next
      case False
      with a show ?thesis by (simp add: CHUNK_SIZE_def)
    qed
    have "0 < length produced \<or> last (?h # ks) < outbytes c"
    proof (cases "0 < currentChunkSize c")
      case True
      from j3 [OF this] grow none p1 show ?thesis by auto
    next
      case False
      with tot have "0 < consumed" by simp
      with grow none p1 show ?thesis by auto
    qed
    with le show ?thesis by arith
  qed
  show "\<exists>ks'. chunk_progress pz ps ks' c'" if "st = MOREOUTPUT \<or> st = CONTINUE"
    using chunk_progress_step(1) [OF cp eff grow' app that] by blast
  show "\<exists>ks'. chunkOffsets c' = map word_of_nat ks'
           \<and> sorted_wrt (<) (?h # ks') \<and> last (?h # ks') = outbytes c'" if "st = DONE"
    using chunk_progress_step(2) [OF cp eff grow' app that] by blast
qed

lemma zstd_tail_fields:
  assumes "compressMoreZstd_tail cfg zd True dn flush oldpos ret ipos c2 = Some (st, c')"
    and "st \<noteq> OOM"
  shows "zstdCStream c' = zstdCStream c2" "zstdOutput_pos c' = zstdOutput_pos c2"
    "zstdOutput_size c' = zstdOutput_size c2"
    "st = CONTINUE \<longrightarrow> zstdOutput_pos c2 \<noteq> zstdOutput_size c2"
    "st = MOREOUTPUT \<longrightarrow> \<not> dn"
  using compressMoreZstd_tail_Some [OF assms(1)] assms(2)
  by (auto simp: Let_def split: if_splits)

lemma zstd_step_backend:
  assumes step: "compressMoreZstd cfg zd True c = Some (st, c')"
    and st: "st \<noteq> OOM"
    and alg: "algorithm_m c \<noteq> ZLIB"
    and n32: "inplen c < 2 ^ 32" and pos: "zstdInputPos c \<le> inplen c"
    and ccs: "currentChunkSize c \<le> CHUNK_SIZE"
  shows "\<exists>offered flush dn ipos (p1 :: byte list) (p2 :: byte list) cs0 cs1 cs2.
     offered \<le> inplen c - zstdInputPos c \<and> currentChunkSize c + offered \<le> CHUNK_SIZE
     \<and> dn = (offered = inplen c - zstdInputPos c) \<and> ipos \<le> offered
     \<and> (\<not> flush \<longrightarrow> currentChunkSize c + offered < CHUNK_SIZE)
     \<and> step_effect ipos
          (sub_size_t (zstdOutput_pos c + length p1 + length p2) (zstdOutput_pos c)) dn st c c'
     \<and> zstdCStream c = Some cs0 \<and> zstdCStream c' = Some cs2
     \<and> zstdOutput_pos c' = zstdOutput_pos c + length p1 + length p2
     \<and> zstdOutput_pos c + length p1 + length p2 \<le> zstdOutput_size c
     \<and> zstdOutput_size c' = zstdOutput_size c
     \<and> (st = CONTINUE \<longrightarrow> zstdOutput_pos c' \<noteq> zstdOutput_size c)
     \<and> (st = MOREOUTPUT \<longrightarrow> \<not> dn)
     \<and> (if 0 < offered \<or> \<not> (dn \<or> flush)
         then \<exists>ret src. length src = offered
                \<and> ZSTD_compressStream zd cs0 (zstdOutput_size c - zstdOutput_pos c) src
                   = (ret, ipos, p1, cs1)
         else ipos = 0 \<and> p1 = [] \<and> cs1 = cs0)
     \<and> (if dn then \<exists>ret. ZSTD_endStream zd cs1
                             (zstdOutput_size c - (zstdOutput_pos c + length p1))
                           = (ret, p2, cs2)
         else if flush then \<exists>ret. ZSTD_flushStream zd cs1
                                    (zstdOutput_size c - (zstdOutput_pos c + length p1))
                                  = (ret, p2, cs2)
         else p2 = [] \<and> cs2 = cs1)"
proof -
  from compressMoreZstd_Some [OF step] st obtain inputSize flush dn src ipos c1 ret2 c2 where
    plan: "compressMoreZstd_plan cfg c = Some (inputSize, flush, dn)"
    and src: "load (inp c) (zstdInputPos c) inputSize = Some src"
    and feed: "if dn \<or> flush
               then (if 0 < inputSize
                     then (\<exists>ret. call_ZSTD_compressStream zd c src = Some (ret, ipos, c1)
                             \<and> \<not> ZSTD_isError zd ret)
                     else ipos = 0 \<and> c1 = c)
                    \<and> (if dn then call_ZSTD_endStream zd c1 else call_ZSTD_flushStream zd c1)
                         = Some (ret2, c2)
               else call_ZSTD_compressStream zd c src = Some (ret2, ipos, c2)"
    and tl: "compressMoreZstd_tail cfg zd True dn flush (zstdOutput_pos c) ret2 ipos c2
                   = Some (st, c')"
    by blast
  note p = compressMoreZstd_plan_Some [OF plan n32 pos ccs]
  have nf: "\<not> flush \<longrightarrow> currentChunkSize c + inputSize < CHUNK_SIZE"
    using p(1,2) by auto
  have len: "length src = inputSize" using src by (rule load_length)
  note tf = zstd_tail_fields [OF tl st]
  have first: "\<exists>(p1 :: byte list) cs0 cs1.
      ipos \<le> inputSize \<and> zstdCStream c = Some cs0 \<and> zstdCStream c1' = Some cs1
      \<and> zstdOutput_pos c1' = zstdOutput_pos c + length p1
      \<and> zstdOutput_pos c1' \<le> zstdOutput_size c
      \<and> zstdOutput_size c1' = zstdOutput_size c
      \<and> algorithm_m c1' = algorithm_m c \<and> level_m c1' = level_m c
      \<and> inp c1' = inp c \<and> inplen c1' = inplen c \<and> zstdInputPos c1' = zstdInputPos c
      \<and> outbytes c1' = outbytes c \<and> chunkOffsets c1' = chunkOffsets c
      \<and> currentChunkSize c1' = currentChunkSize c
      \<and> (\<exists>ret. ZSTD_compressStream zd cs0 (zstdOutput_size c - zstdOutput_pos c) src
                   = (ret, ipos, p1, cs1))"
    if "call_ZSTD_compressStream zd c src = Some (r, ipos, c1')" for r c1'
  proof -
    from call_ZSTD_compressStream_Some [OF that] obtain cs0 and p1 :: "byte list" and cs1 where
      a: "zstdCStream c = Some cs0"
      "ZSTD_compressStream zd cs0 (zstdOutput_size c - zstdOutput_pos c) src = (r, ipos, p1, cs1)"
      "ipos \<le> length src" and w: "zstd_written c p1 cs1 = Some c1'"
      by blast
    note wf = zstd_written_fields [OF w]
    show ?thesis
      by (rule exI [of _ p1], rule exI [of _ cs0], rule exI [of _ cs1])
         (use a wf len in auto)
  qed
  have second: "\<exists>(p2 :: byte list) cs1 cs2.
      zstdCStream c1' = Some cs1 \<and> zstdCStream c2 = Some cs2
      \<and> zstdOutput_pos c2 = zstdOutput_pos c1' + length p2
      \<and> zstdOutput_pos c2 \<le> zstdOutput_size c1'
      \<and> zstdOutput_size c2 = zstdOutput_size c1'
      \<and> algorithm_m c2 = algorithm_m c1' \<and> level_m c2 = level_m c1'
      \<and> inp c2 = inp c1' \<and> inplen c2 = inplen c1' \<and> zstdInputPos c2 = zstdInputPos c1'
      \<and> outbytes c2 = outbytes c1' \<and> chunkOffsets c2 = chunkOffsets c1'
      \<and> currentChunkSize c2 = currentChunkSize c1'
      \<and> (if dn then \<exists>ret. ZSTD_endStream zd cs1 (zstdOutput_size c1' - zstdOutput_pos c1')
                           = (ret, p2, cs2)
          else \<exists>ret. ZSTD_flushStream zd cs1 (zstdOutput_size c1' - zstdOutput_pos c1')
                           = (ret, p2, cs2))"
    if "(if dn then call_ZSTD_endStream zd c1' else call_ZSTD_flushStream zd c1')
          = Some (ret2, c2)" for c1'
  proof (cases dn)
    case True
    with that have "call_ZSTD_endStream zd c1' = Some (ret2, c2)" by simp
    from call_ZSTD_endStream_Some [OF this] obtain cs1 and p2 :: "byte list" and cs2 where
      a: "zstdCStream c1' = Some cs1"
      "ZSTD_endStream zd cs1 (zstdOutput_size c1' - zstdOutput_pos c1') = (ret2, p2, cs2)"
      and w: "zstd_written c1' p2 cs2 = Some c2"
      by blast
    note wf = zstd_written_fields [OF w]
    show ?thesis
      by (rule exI [of _ p2], rule exI [of _ cs1], rule exI [of _ cs2])
         (use a wf True in auto)
  next
    case False
    with that have "call_ZSTD_flushStream zd c1' = Some (ret2, c2)" by simp
    from call_ZSTD_flushStream_Some [OF this] obtain cs1 and p2 :: "byte list" and cs2 where
      a: "zstdCStream c1' = Some cs1"
      "ZSTD_flushStream zd cs1 (zstdOutput_size c1' - zstdOutput_pos c1') = (ret2, p2, cs2)"
      and w: "zstd_written c1' p2 cs2 = Some c2"
      by blast
    note wf = zstd_written_fields [OF w]
    show ?thesis
      by (rule exI [of _ p2], rule exI [of _ cs1], rule exI [of _ cs2])
         (use a wf False in auto)
  qed
  have both: "\<exists>(p1 :: byte list) (p2 :: byte list) cs0 cs1 cs2.
      ipos \<le> inputSize \<and> zstdCStream c = Some cs0 \<and> zstdCStream c2 = Some cs2
      \<and> zstdOutput_pos c2 = zstdOutput_pos c + length p1 + length p2
      \<and> zstdOutput_pos c2 \<le> zstdOutput_size c
      \<and> zstdOutput_size c2 = zstdOutput_size c
      \<and> algorithm_m c2 = algorithm_m c \<and> level_m c2 = level_m c
      \<and> inp c2 = inp c \<and> inplen c2 = inplen c \<and> zstdInputPos c2 = zstdInputPos c
      \<and> outbytes c2 = outbytes c \<and> chunkOffsets c2 = chunkOffsets c
      \<and> currentChunkSize c2 = currentChunkSize c
      \<and> (if 0 < inputSize \<or> \<not> (dn \<or> flush)
         then \<exists>ret src. length src = inputSize
                \<and> ZSTD_compressStream zd cs0 (zstdOutput_size c - zstdOutput_pos c) src
                   = (ret, ipos, p1, cs1)
         else ipos = 0 \<and> p1 = [] \<and> cs1 = cs0)
      \<and> (if dn then \<exists>ret. ZSTD_endStream zd cs1
                             (zstdOutput_size c - (zstdOutput_pos c + length p1))
                           = (ret, p2, cs2)
         else if flush then \<exists>ret. ZSTD_flushStream zd cs1
                                    (zstdOutput_size c - (zstdOutput_pos c + length p1))
                                  = (ret, p2, cs2)
         else p2 = [] \<and> cs2 = cs1)"
  proof (cases "dn \<or> flush")
    case False
    with feed have "call_ZSTD_compressStream zd c src = Some (ret2, ipos, c2)" by simp
    from first [OF this] obtain p1 :: "byte list" and cs0 cs1 where
      a: "ipos \<le> inputSize" "zstdCStream c = Some cs0" "zstdCStream c2 = Some cs1"
      "zstdOutput_pos c2 = zstdOutput_pos c + length p1"
      "zstdOutput_pos c2 \<le> zstdOutput_size c"
      "zstdOutput_size c2 = zstdOutput_size c"
      "algorithm_m c2 = algorithm_m c" "level_m c2 = level_m c"
      "inp c2 = inp c" "inplen c2 = inplen c" "zstdInputPos c2 = zstdInputPos c"
      "outbytes c2 = outbytes c" "chunkOffsets c2 = chunkOffsets c"
      "currentChunkSize c2 = currentChunkSize c"
      and b: "\<exists>ret. ZSTD_compressStream zd cs0 (zstdOutput_size c - zstdOutput_pos c) src
                   = (ret, ipos, p1, cs1)"
      by blast
    show ?thesis
      by (rule exI [of _ p1], rule exI [of _ "[]"], rule exI [of _ cs0], rule exI [of _ cs1],
          rule exI [of _ cs1])
         (use a b len False in auto)
  next
    case True
    with feed have f1: "if 0 < inputSize
                     then (\<exists>ret. call_ZSTD_compressStream zd c src = Some (ret, ipos, c1))
                     else ipos = 0 \<and> c1 = c"
      and f2: "(if dn then call_ZSTD_endStream zd c1 else call_ZSTD_flushStream zd c1)
                         = Some (ret2, c2)"
      by (auto split: if_splits)
    from second [OF f2] obtain p2 :: "byte list" and cs1 cs2 where
      s: "zstdCStream c1 = Some cs1" "zstdCStream c2 = Some cs2"
      "zstdOutput_pos c2 = zstdOutput_pos c1 + length p2"
      "zstdOutput_pos c2 \<le> zstdOutput_size c1"
      "zstdOutput_size c2 = zstdOutput_size c1"
      "algorithm_m c2 = algorithm_m c1" "level_m c2 = level_m c1"
      "inp c2 = inp c1" "inplen c2 = inplen c1" "zstdInputPos c2 = zstdInputPos c1"
      "outbytes c2 = outbytes c1" "chunkOffsets c2 = chunkOffsets c1"
      "currentChunkSize c2 = currentChunkSize c1"
      and s2: "if dn then \<exists>ret. ZSTD_endStream zd cs1 (zstdOutput_size c1 - zstdOutput_pos c1)
                           = (ret, p2, cs2)
          else \<exists>ret. ZSTD_flushStream zd cs1 (zstdOutput_size c1 - zstdOutput_pos c1)
                           = (ret, p2, cs2)"
      by blast
    show ?thesis
    proof (cases "0 < inputSize")
      case False
      with f1 have e: "ipos = 0" "c1 = c" by simp_all
      show ?thesis
        by (rule exI [of _ "[]"], rule exI [of _ p2], rule exI [of _ cs1], rule exI [of _ cs1],
            rule exI [of _ cs2])
          (use s s2 e False True in \<open>auto split: if_splits\<close>)
    next
      case pos: True
      with f1 obtain r where "call_ZSTD_compressStream zd c src = Some (r, ipos, c1)" by auto
      from first [OF this] obtain p1 :: "byte list" and cs0 cs1' where
        a: "ipos \<le> inputSize" "zstdCStream c = Some cs0" "zstdCStream c1 = Some cs1'"
        "zstdOutput_pos c1 = zstdOutput_pos c + length p1"
        "zstdOutput_pos c1 \<le> zstdOutput_size c"
        "zstdOutput_size c1 = zstdOutput_size c"
        "algorithm_m c1 = algorithm_m c" "level_m c1 = level_m c"
        "inp c1 = inp c" "inplen c1 = inplen c" "zstdInputPos c1 = zstdInputPos c"
        "outbytes c1 = outbytes c" "chunkOffsets c1 = chunkOffsets c"
        "currentChunkSize c1 = currentChunkSize c"
        and b: "\<exists>ret. ZSTD_compressStream zd cs0 (zstdOutput_size c - zstdOutput_pos c) src
                   = (ret, ipos, p1, cs1')"
        by blast
      from a(3) s(1) have same: "cs1' = cs1" by simp
      show ?thesis
        by (rule exI [of _ p1], rule exI [of _ p2], rule exI [of _ cs0], rule exI [of _ cs1],
            rule exI [of _ cs2])
          (use s s2 a b same pos True len in \<open>auto split: if_splits\<close>)
    qed
  qed
  then obtain p1 :: "byte list" and p2 :: "byte list" and cs0 cs1 cs2 where
    fr: "ipos \<le> inputSize" "zstdCStream c = Some cs0" "zstdCStream c2 = Some cs2"
      "zstdOutput_pos c2 = zstdOutput_pos c + length p1 + length p2"
      "zstdOutput_pos c2 \<le> zstdOutput_size c"
      "zstdOutput_size c2 = zstdOutput_size c"
      "algorithm_m c2 = algorithm_m c" "level_m c2 = level_m c"
      "inp c2 = inp c" "inplen c2 = inplen c" "zstdInputPos c2 = zstdInputPos c"
      "outbytes c2 = outbytes c" "chunkOffsets c2 = chunkOffsets c"
      "currentChunkSize c2 = currentChunkSize c"
    and k1: "if 0 < inputSize \<or> \<not> (dn \<or> flush)
         then \<exists>ret src. length src = inputSize
                \<and> ZSTD_compressStream zd cs0 (zstdOutput_size c - zstdOutput_pos c) src
                   = (ret, ipos, p1, cs1)
         else ipos = 0 \<and> p1 = [] \<and> cs1 = cs0"
    and k2: "if dn then \<exists>ret. ZSTD_endStream zd cs1
                             (zstdOutput_size c - (zstdOutput_pos c + length p1))
                           = (ret, p2, cs2)
         else if flush then \<exists>ret. ZSTD_flushStream zd cs1
                                    (zstdOutput_size c - (zstdOutput_pos c + length p1))
                                  = (ret, p2, cs2)
         else p2 = [] \<and> cs2 = cs1"
    by blast
  have alg2: "algorithm_m c2 \<noteq> ZLIB" using fr alg by simp
  have "input_pos c2 = input_pos c" using fr alg by (simp add: input_pos_def)
  with fr
  have eff: "step_effect ipos (sub_size_t (zstdOutput_pos c2) (zstdOutput_pos c)) dn st c c'"
    by (intro step_effect_pre [OF zstd_tail_effect [OF tl st alg2]]) simp_all
  show ?thesis
    by (rule exI [of _ inputSize], rule exI [of _ flush], rule exI [of _ dn],
        rule exI [of _ ipos], rule exI [of _ p1], rule exI [of _ p2], rule exI [of _ cs0],
        rule exI [of _ cs1], rule exI [of _ cs2])
       (use p(3,4,5) nf fr(1-6) eff tf k1 k2 in \<open>simp only: simp_thms\<close>)
qed

lemma sub_size_t_pos:
  assumes "a < b" "b < 2 ^ 64"
  shows "0 < sub_size_t b a"
proof -
  from assms have "sub_size_t b a = b - a" by (intro sub_size_t_eq) simp_all
  with assms show ?thesis by simp
qed

lemma zstd_progress_step:
  assumes acc: "accounting input n alg lvl c" and alg: "alg \<noteq> ZLIB"
    and cp: "chunk_progress pz ps ks c"
    and room: "output_room c"
    and zp: "zstd_progress zd ps"
    and step: "compressMore cfg zl zd True c = Some (st, c')"
  shows "st = MOREOUTPUT \<or> st = CONTINUE \<Longrightarrow> \<exists>ks'. chunk_progress pz ps ks' c'"
    and "st = CONTINUE \<Longrightarrow> output_room c'"
    and "st = DONE \<Longrightarrow> \<exists>ks'. chunkOffsets c' = map word_of_nat ks'
           \<and> sorted_wrt (<) (sizeof_CompressedDataHeader # ks')
           \<and> last (sizeof_CompressedDataHeader # ks') = outbytes c'"
proof -
  let ?h = sizeof_CompressedDataHeader
  from acc alg have f: "algorithm_m c \<noteq> ZLIB" "algorithm_m c = ZSTD" "inplen c = n"
    "n < UINT32_MAX" "input_pos c \<le> n"
    "input_pos c = CHUNK_SIZE * length (chunkOffsets c) + currentChunkSize c"
    "currentChunkSize c \<le> CHUNK_SIZE" "CHUNK_SIZE * length (chunkOffsets c) < n"
    by (auto simp: accounting_def)
  have ip: "input_pos c = zstdInputPos c" using f(1) by (simp add: input_pos_def)
  have n32: "inplen c < 2 ^ 32" using UINT32_MAX_lt [OF f(4)] f(3) by (simp only:)
  have pos: "zstdInputPos c \<le> inplen c" using f(5) ip f(3) by simp
  from room f(1) have r0: "zstdOutput_pos c < zstdOutput_size c"
    and sz: "zstdOutput_size c < 2 ^ 64"
    by (simp_all add: output_room_def)
  from cp have le: "last (?h # ks) \<le> outbytes c"
    and j3: "0 < currentChunkSize c \<Longrightarrow> last (?h # ks) < outbytes c \<or> 0 < pending pz ps c"
    by (simp_all add: chunk_progress_def)
  have concl: "(st = MOREOUTPUT \<or> st = CONTINUE \<longrightarrow> (\<exists>ks'. chunk_progress pz ps ks' c'))
     \<and> (st = CONTINUE \<longrightarrow> output_room c')
     \<and> (st = DONE \<longrightarrow> (\<exists>ks'. chunkOffsets c' = map word_of_nat ks'
           \<and> sorted_wrt (<) (?h # ks') \<and> last (?h # ks') = outbytes c'))"
  proof (cases "st = OOM")
    case True
    then show ?thesis by simp
  next
    case st: False
    from step f(1,2) have s: "compressMoreZstd cfg zd True c = Some (st, c')"
      by (simp add: compressMore_def)
    from zstd_step_backend [OF s st f(1) n32 pos f(7)]
    obtain offered flush dn ipos and p1 :: "byte list" and p2 :: "byte list"
      and cs0 cs1 cs2 where
      o: "currentChunkSize c + offered \<le> CHUNK_SIZE"
        "dn = (offered = inplen c - zstdInputPos c)" "ipos \<le> offered"
      and nf: "\<not> flush \<longrightarrow> currentChunkSize c + offered < CHUNK_SIZE"
      and eff: "step_effect ipos
          (sub_size_t (zstdOutput_pos c + length p1 + length p2) (zstdOutput_pos c)) dn st c c'"
      and s0: "zstdCStream c = Some cs0" and s2: "zstdCStream c' = Some cs2"
      and po: "zstdOutput_pos c' = zstdOutput_pos c + length p1 + length p2"
        "zstdOutput_pos c + length p1 + length p2 \<le> zstdOutput_size c"
        "zstdOutput_size c' = zstdOutput_size c"
        "st = CONTINUE \<longrightarrow> zstdOutput_pos c' \<noteq> zstdOutput_size c"
      and mo: "st = MOREOUTPUT \<longrightarrow> \<not> dn"
      and k1: "if 0 < offered \<or> \<not> (dn \<or> flush)
         then \<exists>ret src. length src = offered
                \<and> ZSTD_compressStream zd cs0 (zstdOutput_size c - zstdOutput_pos c) src
                   = (ret, ipos, p1, cs1)
         else ipos = 0 \<and> p1 = [] \<and> cs1 = cs0"
      and k2: "if dn then \<exists>ret. ZSTD_endStream zd cs1
                             (zstdOutput_size c - (zstdOutput_pos c + length p1))
                           = (ret, p2, cs2)
         else if flush then \<exists>ret. ZSTD_flushStream zd cs1
                                    (zstdOutput_size c - (zstdOutput_pos c + length p1))
                                  = (ret, p2, cs2)
         else p2 = [] \<and> cs2 = cs1"
      by blast
    define total where
      "total = sub_size_t (zstdOutput_pos c + length p1 + length p2) (zstdOutput_pos c)"
    have total: "total = length p1 + length p2"
    proof -
      have "zstdOutput_pos c + length p1 + length p2 < 2 ^ 64" using po(2) sz by simp
      then have "sub_size_t (zstdOutput_pos c + length p1 + length p2) (zstdOutput_pos c)
          = zstdOutput_pos c + length p1 + length p2 - zstdOutput_pos c"
        by (intro sub_size_t_eq) simp_all
      then show ?thesis by (simp add: total_def)
    qed
    from eff have a': "algorithm_m c' \<noteq> ZLIB" using f(1) by (simp add: step_effect_def)
    have p0: "pending pz ps c = ps cs0" using f(1) s0 by (simp add: pending_def)
    have p2: "pending pz ps c' = ps cs2" using a' s2 by (simp add: pending_def)
    from eff have dn: "st = DONE \<longrightarrow> dn" "st = CONTINUE \<longrightarrow> \<not> dn"
      by (auto simp: step_effect_def)
    have c1: "(0 < ipos \<or> 0 < ps cs0 \<longrightarrow> p1 \<noteq> [] \<or> 0 < ps cs1)
        \<and> (0 < offered \<longrightarrow> 0 < ipos \<or> p1 \<noteq> [])"
    proof (cases "0 < offered \<or> \<not> (dn \<or> flush)")
      case True
      with k1 obtain ret src where l: "length src = offered"
        and e: "ZSTD_compressStream zd cs0 (zstdOutput_size c - zstdOutput_pos c) src
                   = (ret, ipos, p1, cs1)"
        by auto
      note z = zp [unfolded zstd_progress_def, THEN conjunct1, rule_format, OF e]
      from z l r0 show ?thesis by auto
    next
      case False
      with k1 show ?thesis by auto
    qed
    have c2f: "(0 < ps cs1 \<longrightarrow> p2 \<noteq> [] \<or> 0 < ps cs2)" if "\<not> dn"
    proof (cases flush)
      case True
      with that k2 obtain ret where
        e: "ZSTD_flushStream zd cs1 (zstdOutput_size c - (zstdOutput_pos c + length p1))
              = (ret, p2, cs2)"
        by auto
      note z = zp [unfolded zstd_progress_def, THEN conjunct2, THEN conjunct1, rule_format, OF e]
      from z show ?thesis by auto
    next
      case False
      with that k2 show ?thesis by auto
    qed
    have c2w: "0 < ps cs1 \<and> zstdOutput_pos c + length p1 < zstdOutput_size c \<longrightarrow> p2 \<noteq> []"
      if "dn \<or> flush"
    proof (cases dn)
      case True
      with k2 obtain ret where
        e: "ZSTD_endStream zd cs1 (zstdOutput_size c - (zstdOutput_pos c + length p1))
              = (ret, p2, cs2)"
        by auto
      note z = zp [unfolded zstd_progress_def, THEN conjunct2, THEN conjunct2, rule_format, OF e]
      from z show ?thesis by auto
    next
      case False
      with that k2 obtain ret where
        e: "ZSTD_flushStream zd cs1 (zstdOutput_size c - (zstdOutput_pos c + length p1))
              = (ret, p2, cs2)"
        by auto
      note z = zp [unfolded zstd_progress_def, THEN conjunct2, THEN conjunct1, rule_format, OF e]
      from z show ?thesis by auto
    qed
    have grow: "0 < total \<or> 0 < pending pz ps c'"
      if "st \<noteq> DONE" "0 < ipos \<or> 0 < pending pz ps c"
    proof -
      from that(1) st dn(2) mo have "\<not> dn" by (cases st) auto
      note c2f = c2f [OF this]
      from that(2) p0 c1 have "p1 \<noteq> [] \<or> 0 < ps cs1" by auto
      with c2f have "p1 \<noteq> [] \<or> p2 \<noteq> [] \<or> 0 < ps cs2" by auto
      then show ?thesis using total p2 by auto
    qed
    have app: "last (?h # ks) < outbytes c + total"
      if a: "st = DONE \<or> st = CONTINUE \<and> currentChunkSize c + ipos = CHUNK_SIZE"
    proof -
      have df: "dn \<or> flush" using a dn nf o(3) by auto
      have mid: "p1 \<noteq> [] \<or> last (?h # ks) < outbytes c \<or> 0 < ps cs1"
      proof (cases "0 < offered")
        case True
        with c1 show ?thesis by auto
      next
        case False
        then have z: "offered = 0" "ipos = 0" using o(3) by simp_all
        have "0 < currentChunkSize c"
        proof (cases "st = DONE")
          case True
          with dn o(2) z have "inplen c - zstdInputPos c = 0" by simp
          then show ?thesis using f(3,5,6,8) ip by linarith
        next
          case False
          with a z show ?thesis by (simp add: CHUNK_SIZE_def)
        qed
        from j3 [OF this] p0 c1 z show ?thesis by auto
      qed
      have "0 < total \<or> last (?h # ks) < outbytes c"
      proof (cases "p1 \<noteq> [] \<or> last (?h # ks) < outbytes c")
        case True
        then show ?thesis using total by auto
      next
        case False
        with mid have pe: "0 < ps cs1" and e: "p1 = []" by auto
        from e r0 have "zstdOutput_pos c + length p1 < zstdOutput_size c" by simp
        with c2w [OF df] pe have "p2 \<noteq> []" by simp
        then show ?thesis using total by simp
      qed
      with le show ?thesis by arith
    qed
    note eff' = eff [folded total_def]
    have 1: "\<exists>ks'. chunk_progress pz ps ks' c'" if "st = MOREOUTPUT \<or> st = CONTINUE"
      using chunk_progress_step(1) [OF cp eff' grow app that] by blast
    have 2: "output_room c'" if "st = CONTINUE"
      using that po sz a' by (simp add: output_room_def)
    have 3: "\<exists>ks'. chunkOffsets c' = map word_of_nat ks'
           \<and> sorted_wrt (<) (?h # ks') \<and> last (?h # ks') = outbytes c'" if "st = DONE"
      using chunk_progress_step(2) [OF cp eff' grow app that] by blast
    from 1 2 3 show ?thesis by blast
  qed
  from concl show "st = MOREOUTPUT \<or> st = CONTINUE \<Longrightarrow> \<exists>ks'. chunk_progress pz ps ks' c'"
    by blast
  from concl show "st = CONTINUE \<Longrightarrow> output_room c'" by blast
  from concl show "st = DONE \<Longrightarrow> \<exists>ks'. chunkOffsets c' = map word_of_nat ks'
           \<and> sorted_wrt (<) (?h # ks') \<and> last (?h # ks') = outbytes c'" by blast
qed

lemma chunk_progress_setOutput:
  assumes "chunk_progress pz ps ks c" "setOutput cfg c out outlen = Some c'"
  shows "chunk_progress pz ps ks c'"
  using assms(1) unfolding setOutput_Some [OF assms(2)] chunk_progress_def pending_def
  by auto

lemma output_room_setOutput:
  assumes "setOutput cfg c out outlen = Some c'" "outbytes c < outlen" "outlen < 2 ^ 32"
    "algorithm_m c = ZLIB \<or> algorithm_m c = ZSTD"
  shows "output_room c'"
proof -
  have "(2::nat) ^ 32 < 2 ^ 64" by simp
  with assms(3) have "outlen < 2 ^ 64" by (rule less_trans)
  with assms(2) have "sub_size_t outlen (outbytes c) = outlen - outbytes c"
    by (intro sub_size_t_eq) simp_all
  moreover have "outlen - outbytes c < 2 ^ 64"
    using \<open>outlen < 2 ^ 64\<close> by (rule less_imp_diff_less)
  ultimately show ?thesis
    using assms(2,4) unfolding setOutput_Some [OF assms(1)] output_room_def
    by auto
qed

lemma chunk_progress_start:
  assumes ctor: "Compressor_ctor cfg input n alg lvl = Some c0"
    and ini: "init cfg zl zd c0 = Some (True, c1)"
  shows "chunk_progress pz ps [] c1"
proof -
  note c0 = Compressor_ctor_Some [OF ctor]
  from init_True [OF ini]
  have "(\<exists>st. c1 = c0\<lparr>zs_state := Some st, initialized := True\<rparr>)
      \<or> (\<exists>cs. c1 = c0\<lparr>zstdCStream := Some cs, initialized := True\<rparr>)"
    by auto
  then show ?thesis
  proof (elim disjE exE)
    fix st assume "c1 = c0\<lparr>zs_state := Some st, initialized := True\<rparr>"
    then show ?thesis unfolding chunk_progress_def c0 by simp
  next
    fix cs assume "c1 = c0\<lparr>zstdCStream := Some cs, initialized := True\<rparr>"
    then show ?thesis unfolding chunk_progress_def c0 by simp
  qed
qed

lemma progress_compressMore:
  assumes acc: "accounting input n alg lvl c"
    and cp: "chunk_progress pz ps ks c" and room: "output_room c"
    and zlp: "alg = ZLIB \<longrightarrow> zlib_progress zl pz"
    and zsp: "alg = ZSTD \<longrightarrow> zstd_progress zd ps"
    and step: "compressMore cfg zl zd True c = Some (st, c')"
  shows "st = MOREOUTPUT \<or> st = CONTINUE \<Longrightarrow> \<exists>ks'. chunk_progress pz ps ks' c'"
    and "st = CONTINUE \<Longrightarrow> output_room c'"
    and "st = DONE \<Longrightarrow> \<exists>ks'. chunkOffsets c' = map word_of_nat ks'
           \<and> sorted_wrt (<) (sizeof_CompressedDataHeader # ks')
           \<and> last (sizeof_CompressedDataHeader # ks') = outbytes c'"
proof -
  from acc have a: "alg = ZLIB \<or> alg = ZSTD" by (simp add: accounting_def)
  show "\<exists>ks'. chunk_progress pz ps ks' c'" if "st = MOREOUTPUT \<or> st = CONTINUE"
  proof (cases "alg = ZLIB")
    case True
    with zlp have "zlib_progress zl pz" by simp
    from zlib_progress_step(1) [OF acc True cp this step that] show ?thesis .
  next
    case False
    with a zsp have "zstd_progress zd ps" by simp
    from zstd_progress_step(1) [OF acc False cp room this step that] show ?thesis .
  qed
  show "output_room c'" if "st = CONTINUE"
  proof (cases "alg = ZLIB")
    case True
    from that have "st = CONTINUE \<or> st = MOREOUTPUT" by simp
    from accounting_compressMore(1) [OF acc step this] True show ?thesis
      by (simp add: accounting_def output_room_def)
  next
    case False
    with a zsp have "zstd_progress zd ps" by simp
    from zstd_progress_step(2) [OF acc False cp room this step that] show ?thesis .
  qed
  show "\<exists>ks'. chunkOffsets c' = map word_of_nat ks'
           \<and> sorted_wrt (<) (sizeof_CompressedDataHeader # ks')
           \<and> last (sizeof_CompressedDataHeader # ks') = outbytes c'" if "st = DONE"
  proof (cases "alg = ZLIB")
    case True
    with zlp have "zlib_progress zl pz" by simp
    from zlib_progress_step(2) [OF acc True cp this step that] show ?thesis .
  next
    case False
    with a zsp have "zstd_progress zd ps" by simp
    from zstd_progress_step(3) [OF acc False cp room this step that] show ?thesis .
  qed
qed

lemma running_progress:
  assumes "running cfg zl zd input n alg lvl c"
    and zlp: "alg = ZLIB \<longrightarrow> zlib_progress zl pz"
    and zsp: "alg = ZSTD \<longrightarrow> zstd_progress zd ps"
  shows "(\<exists>ks. chunk_progress pz ps ks c) \<and> output_room c"
  using assms(1)
proof (induction rule: running.induct)
  case (start c0 c1 outlen out c)
  note acc = accounting_start [OF start(1,2,3)]
  then have a: "algorithm_m c1 = ZLIB \<or> algorithm_m c1 = ZSTD" by (auto simp: accounting_def)
  from chunk_progress_start [OF start(1,3)] start(6)
  have "chunk_progress pz ps [] c" by (rule chunk_progress_setOutput)
  moreover from start(6,4,5) a have "output_room c" by (rule output_room_setOutput)
  ultimately show ?case by blast
next
  case (continue c c')
  note acc = running_accounting [OF continue(1)]
  from continue(3) obtain ks where cp: "chunk_progress pz ps ks c" and room: "output_room c"
    by blast
  from progress_compressMore(1,2) [OF acc cp room zlp zsp continue(2)] show ?case by simp
next
  case (more_output c c1 outlen out c')
  note acc = running_accounting [OF more_output(1)]
  from more_output(6) obtain ks where cp: "chunk_progress pz ps ks c" and room: "output_room c"
    by blast
  from progress_compressMore(1) [OF acc cp room zlp zsp more_output(2)]
  obtain ks' where "chunk_progress pz ps ks' c1" by auto
  then have "chunk_progress pz ps ks' c'" using more_output(5) by (rule chunk_progress_setOutput)
  moreover have "accounting input n alg lvl c1"
    using accounting_compressMore(1) [OF acc more_output(2)] by simp
  then have "algorithm_m c1 = ZLIB \<or> algorithm_m c1 = ZSTD" by (auto simp: accounting_def)
  with more_output(5,3,4) have "output_room c'" by (rule output_room_setOutput)
  ultimately show ?case by blast
qed

lemma completed_progress:
  assumes "completed cfg zl zd input n alg lvl c"
    and zlp: "alg = ZLIB \<longrightarrow> zlib_progress zl pz"
    and zsp: "alg = ZSTD \<longrightarrow> zstd_progress zd ps"
  shows "\<exists>ks. chunkOffsets c = map word_of_nat ks
           \<and> sorted_wrt (<) (sizeof_CompressedDataHeader # ks)
           \<and> last (sizeof_CompressedDataHeader # ks) = outbytes c"
  using assms(1)
proof cases
  case (last_step c0)
  note acc = running_accounting [OF last_step(1)]
  from running_progress [OF last_step(1) zlp zsp]
  obtain ks where cp: "chunk_progress pz ps ks c0" and room: "output_room c0" by blast
  from progress_compressMore(3) [OF acc cp room zlp zsp last_step(2)] show ?thesis by simp
qed

lemma sorted_wrt_bounds:
  assumes "sorted_wrt (<) (a # ks)" "x \<in> set ks"
  shows "(a :: nat) < x \<and> x \<le> last (a # ks)"
  using assms
proof (induction ks arbitrary: a x)
  case Nil
  then show ?case by simp
next
  case (Cons b ks)
  from Cons.prems(1) have ab: "a < b" and s: "sorted_wrt (<) (b # ks)" by simp_all
  show ?case
  proof (cases "x = b")
    case True
    have "b \<le> last (b # ks)"
    proof (cases ks)
      case Nil
      then show ?thesis by simp
    next
      case (Cons k ks')
      then have "last (b # ks) \<in> set ks" by simp
      from Cons.IH [OF s this] show ?thesis by simp
    qed
    with True ab show ?thesis by simp
  next
    case False
    with Cons.prems(2) have "x \<in> set ks" by simp
    from Cons.IH [OF s this] ab show ?thesis by simp
  qed
qed

lemma ceil_div_chunk:
  assumes "0 < n"
  shows "(n + CHUNK_SIZE - 1) div CHUNK_SIZE = (n - 1) div CHUNK_SIZE + 1"
proof -
  from assms have "n + CHUNK_SIZE - 1 = (n - 1) + CHUNK_SIZE" by simp
  then show ?thesis by (simp add: CHUNK_SIZE_def)
qed

lemma completed_positive:
  assumes "completed cfg zl zd input n alg lvl c"
  shows "0 < n"
  using assms
proof cases
  case (last_step c0)
  from running_accounting [OF last_step(1)] show ?thesis by (simp add: accounting_def)
qed


lemma stub_tokens_Nil_iff [simp]: "stub_tokens xs = [] \<longleftrightarrow> xs = []"
  by (cases xs) (simp_all add: stub_tokens_def)

lemma stub_deflate_cases:
  assumes "stub_deflate (window, ready, prev) input room flush = (ret, consumed, produced, st')"
  obtains
    (no_room) "room = 0" "ret = Z_BUF_ERROR" "consumed = 0" "produced = []"
      "st' = (window, ready, prev)"
  | (blocked) "0 < room" "room \<le> length ready" "ret = Z_OK" "consumed = 0"
      "produced = take room ready" "st' = (window, drop room ready, prev)"
  | (idle) "0 < room" "length ready < room" "ret = Z_BUF_ERROR" "consumed = 0"
      "produced = []" "st' = (window, ready, prev)" "input = []" "ready = []"
      "flush \<noteq> Z_FINISH"
      "flush = Z_NO_FLUSH \<or> window = []"
  | (taken) "0 < room" "length ready < room" "flush = Z_NO_FLUSH" "ret = Z_OK"
      "consumed = length input" "produced = ready"
      "st' = (window @ stub_tokens input, [], Z_NO_FLUSH)" "input \<noteq> [] \<or> ready \<noteq> []"
  | (flushed) out where "0 < room" "length ready < room" "flush \<noteq> Z_NO_FLUSH"
      "ret = (if flush = Z_FINISH \<and> length out < room - length ready
              then Z_STREAM_END else Z_OK)"
      "consumed = length input" "produced = ready @ take (room - length ready) out"
      "st' = ([], drop (room - length ready) out, flush)"
      "window \<noteq> [] \<or> input \<noteq> [] \<Longrightarrow> out \<noteq> []"
      "out \<noteq> [] \<or> ready \<noteq> [] \<or> flush = Z_FINISH"
proof (cases "room = 0")
  case True
  with assms have "ret = Z_BUF_ERROR" "consumed = 0" "produced = []"
    "st' = (window, ready, prev)"
    by (auto simp: stub_deflate_def)
  with True show ?thesis by (rule no_room)
next
  case r: False
  show ?thesis
  proof (cases "room \<le> length ready")
    case True
    with assms r have "ret = Z_OK" "consumed = 0"
      "produced = take room ready" "st' = (window, drop room ready, prev)"
      by (auto simp: stub_deflate_def)
    with r True show ?thesis by (intro blocked) simp_all
  next
    case l: False
    show ?thesis
    proof (cases "flush = Z_NO_FLUSH")
      case True
      show ?thesis
      proof (cases "input = [] \<and> ready = []")
        case True
        with assms r l \<open>flush = Z_NO_FLUSH\<close> have "ret = Z_BUF_ERROR" "consumed = 0"
          "produced = []" "st' = (window, ready, prev)"
          by (auto simp: stub_deflate_def)
        with r l True \<open>flush = Z_NO_FLUSH\<close> show ?thesis
          by (intro idle) (simp_all add: Z_NO_FLUSH_def Z_FINISH_def)
      next
        case False
        with assms r l \<open>flush = Z_NO_FLUSH\<close> have "ret = Z_OK"
          "consumed = length input" "produced = ready"
          "st' = (window @ stub_tokens input, [], Z_NO_FLUSH)"
          by (auto simp: stub_deflate_def)
        with r l False \<open>flush = Z_NO_FLUSH\<close> show ?thesis by (intro taken) auto
      qed
    next
      case f: False
      define marker :: "byte list" where
        "marker = (if window @ stub_tokens input = [] \<and> prev = flush then []
                        else if flush = Z_FINISH then [2] else [0])"
      define out where "out = window @ stub_tokens input @ marker"
      note e = assms [unfolded stub_deflate_def prod.case Let_def if_not_P [OF r]
          if_not_P [OF l] if_not_P [OF f], folded marker_def, folded out_def]
      show ?thesis
      proof (cases "out = [] \<and> ready = [] \<and> flush \<noteq> Z_FINISH")
        case True
        from e have "ret = Z_BUF_ERROR" "consumed = 0" "produced = []"
          "st' = (window, ready, prev)"
          unfolding if_P [OF True] by auto
        moreover from True have "input = []" "window = []" by (auto simp: out_def)
        ultimately show ?thesis using r l True by (intro idle) simp_all
      next
        case False
        from e have "ret = (if flush = Z_FINISH \<and> length out < room - length ready
              then Z_STREAM_END else Z_OK)"
          "consumed = length input" "produced = ready @ take (room - length ready) out"
          "st' = ([], drop (room - length ready) out, flush)"
          unfolding if_not_P [OF False] by auto
        moreover have "out \<noteq> []" if "window \<noteq> [] \<or> input \<noteq> []"
          using that by (auto simp: out_def)
        moreover from False have "out \<noteq> [] \<or> ready \<noteq> [] \<or> flush = Z_FINISH" by blast
        ultimately show ?thesis using r l f by (intro flushed [of out]) simp_all
      qed
    qed
  qed
qed

lemma stub_zlib_progress:
  "zlib_progress stub_zlib (\<lambda>st. length (fst st) + length (fst (snd st)))"
  unfolding zlib_progress_def
proof (intro allI impI)
  fix st :: stub_deflate_state and input :: "byte list" and room :: nat and flush ret :: int
    and consumed :: nat and produced :: "byte list" and st' :: stub_deflate_state
  assume "deflate stub_zlib st input room flush = (ret, consumed, produced, st')"
  then have d: "stub_deflate st input room flush = (ret, consumed, produced, st')"
    by (simp add: stub_zlib_def)
  obtain window ready prev where st: "st = (window, ready, prev)" by (cases st)
  from d [unfolded st]
  show "(ret = Z_OK \<or> ret = Z_STREAM_END \<or> ret = Z_BUF_ERROR \<or> ret = Z_MEM_ERROR)
          \<and> (0 < consumed \<or> 0 < length (fst st) + length (fst (snd st))
                \<longrightarrow> produced \<noteq> [] \<or> 0 < length (fst st') + length (fst (snd st')))
          \<and> (flush \<noteq> Z_NO_FLUSH \<and> (ret = Z_STREAM_END \<or> ret = Z_OK \<and> length produced < room)
                \<longrightarrow> consumed = length input \<and> length (fst st') + length (fst (snd st')) = 0)"
  proof (cases rule: stub_deflate_cases)
    case no_room
    then show ?thesis using st by (auto simp: Z_BUF_ERROR_def Z_STREAM_END_def Z_OK_def)
  next
    case blocked
    then show ?thesis using st by (auto simp: Z_BUF_ERROR_def Z_STREAM_END_def Z_OK_def)
  next
    case idle
    then show ?thesis using st by (auto simp: Z_BUF_ERROR_def Z_STREAM_END_def Z_OK_def)
  next
    case taken
    then show ?thesis using st by (auto simp: Z_BUF_ERROR_def Z_STREAM_END_def Z_OK_def)
  next
    case (flushed out)
    have "take (room - length ready) out \<noteq> []" if "out \<noteq> []"
      using that flushed(2) by (cases out) auto
    with flushed show ?thesis using st
      by (auto simp: Z_STREAM_END_def Z_OK_def split: if_splits)
  qed
qed

lemma take_drop_nonempty: "xs \<noteq> [] \<Longrightarrow> take n xs \<noteq> [] \<or> drop n xs \<noteq> []"
  by (metis append_take_drop_id append_Nil)

lemma stub_compressStream_progress:
  assumes "stub_compressStream cs room src = (ret, consumed, produced, cs')"
  shows "0 < consumed \<or> fst cs \<noteq> [] \<Longrightarrow> produced \<noteq> [] \<or> fst cs' \<noteq> []"
    and "src \<noteq> [] \<Longrightarrow> 0 < consumed"
proof -
  obtain pending started ended where cs: "cs = (pending, started, ended)" by (cases cs)
  define queue where
    "queue = pending @ (if started then [] else stub_magic) @ stub_tokens src"
  from assms have e: "consumed = length src" "produced = take room queue"
    "cs' = (drop room queue, True, ended)"
    by (auto simp: stub_compressStream_def cs queue_def Let_def)
  show "produced \<noteq> [] \<or> fst cs' \<noteq> []" if "0 < consumed \<or> fst cs \<noteq> []"
  proof -
    from that e cs have "queue \<noteq> []"
      by (cases src) (auto simp: queue_def stub_tokens_def)
    from take_drop_nonempty [OF this, of room] e show ?thesis by simp
  qed
  show "0 < consumed" if "src \<noteq> []" using that e by simp
qed

lemma stub_flushStream_progress:
  assumes "stub_flushStream cs room = (ret, produced, cs')"
  shows "fst cs \<noteq> [] \<Longrightarrow> produced \<noteq> [] \<or> fst cs' \<noteq> []"
    and "fst cs \<noteq> [] \<Longrightarrow> 0 < room \<Longrightarrow> produced \<noteq> []"
proof -
  obtain pending started ended where cs: "cs = (pending, started, ended)" by (cases cs)
  from assms have e: "produced = take room pending" "cs' = (drop room pending, started, ended)"
    by (auto simp: stub_flushStream_def cs)
  show "produced \<noteq> [] \<or> fst cs' \<noteq> []" if "fst cs \<noteq> []"
    using take_drop_nonempty [of pending room] that e cs by simp
  show "produced \<noteq> []" if "fst cs \<noteq> []" "0 < room"
    using that e cs by simp
qed

lemma stub_endStream_progress:
  assumes "stub_endStream cs room = (ret, produced, cs')"
  shows "fst cs \<noteq> [] \<Longrightarrow> 0 < room \<Longrightarrow> produced \<noteq> []"
proof -
  obtain pending started ended where cs: "cs = (pending, started, ended)" by (cases cs)
  from assms have e: "produced = take room (pending @ (if started then [] else stub_magic)
      @ (if ended then [] else [2]))"
    by (auto simp: stub_endStream_def cs Let_def)
  show "produced \<noteq> []" if "fst cs \<noteq> []" "0 < room"
    using that e cs by simp
qed

lemma stub_zstd_progress: "zstd_progress stub_zstd (\<lambda>cs. length (fst cs))"
  unfolding zstd_progress_def
proof (intro conjI allI impI)
  fix cs :: "byte list \<times> bool \<times> bool" and room ret consumed :: nat
    and src produced :: "byte list" and cs' :: "byte list \<times> bool \<times> bool"
  assume "ZSTD_compressStream stub_zstd cs room src = (ret, consumed, produced, cs')"
    and h: "0 < consumed \<or> 0 < length (fst cs)"
  then have d: "stub_compressStream cs room src = (ret, consumed, produced, cs')"
    by (simp add: stub_zstd_def)
  from stub_compressStream_progress(1) [OF d] h
  show "produced \<noteq> [] \<or> 0 < length (fst cs')" by simp
next
  fix cs :: "byte list \<times> bool \<times> bool" and room ret consumed :: nat
    and src produced :: "byte list" and cs' :: "byte list \<times> bool \<times> bool"
  assume "ZSTD_compressStream stub_zstd cs room src = (ret, consumed, produced, cs')"
    and h: "src \<noteq> [] \<and> 0 < room"
  then have d: "stub_compressStream cs room src = (ret, consumed, produced, cs')"
    by (simp add: stub_zstd_def)
  from stub_compressStream_progress(2) [OF d] h
  show "0 < consumed \<or> produced \<noteq> []" by simp
next
  fix cs :: "byte list \<times> bool \<times> bool" and room ret :: nat
    and produced :: "byte list" and cs' :: "byte list \<times> bool \<times> bool"
  assume "ZSTD_flushStream stub_zstd cs room = (ret, produced, cs')"
    and h: "0 < length (fst cs)"
  then have d: "stub_flushStream cs room = (ret, produced, cs')"
    by (simp add: stub_zstd_def)
  from stub_flushStream_progress(1) [OF d] h
  show "produced \<noteq> [] \<or> 0 < length (fst cs')" by simp
next
  fix cs :: "byte list \<times> bool \<times> bool" and room ret :: nat
    and produced :: "byte list" and cs' :: "byte list \<times> bool \<times> bool"
  assume "ZSTD_flushStream stub_zstd cs room = (ret, produced, cs')"
    and h: "0 < length (fst cs) \<and> 0 < room"
  then have d: "stub_flushStream cs room = (ret, produced, cs')"
    by (simp add: stub_zstd_def)
  from stub_flushStream_progress(2) [OF d] h
  show "produced \<noteq> []" by simp
next
  fix cs :: "byte list \<times> bool \<times> bool" and room ret :: nat
    and produced :: "byte list" and cs' :: "byte list \<times> bool \<times> bool"
  assume "ZSTD_endStream stub_zstd cs room = (ret, produced, cs')"
    and h: "0 < length (fst cs) \<and> 0 < room"
  then have d: "stub_endStream cs room = (ret, produced, cs')"
    by (simp add: stub_zstd_def)
  from stub_endStream_progress [OF d] h
  show "produced \<noteq> []" by simp
qed

lemma zstd_example_completed:
  "\<exists>c. completed release stub_zlib stub_zstd [0x41] 1 ZSTD 0 c
       \<and> algorithm_m c = ZSTD \<and> level_m c = 0 \<and> outbytes c = 15 \<and> chunkOffsets c = [15]"
proof -
  define c0 :: "(stub_deflate_state, byte list \<times> bool \<times> bool) Compressor" where
    "c0 = \<lparr>algorithm_m = ZSTD, level_m = 0, inp = [0x41], inplen = 1,
           initialized = False, finished = False, currentChunkSize = 0,
           outbytes = sizeof_CompressedDataHeader, chunkOffsets = [],
           zs_next_in = 0, zs_avail_in = 0, zs_next_out = None, zs_avail_out = 0,
           zs_state = None, zstdCStream = None,
           zstdOutput_dst = 0, zstdOutput_size = 0, zstdOutput_pos = 0,
           zstdInputPos = 0, out_mem = []\<rparr>"
  define c1 where "c1 = c0\<lparr>zstdCStream := Some ([], False, False), initialized := True\<rparr>"
  define c2 where "c2 = c1\<lparr>out_mem := replicate 64 0, zstdOutput_dst := 8,
    zstdOutput_size := 56, zstdOutput_pos := 0\<rparr>"
  have 0: "Compressor_ctor release [0x41] 1 ZSTD 0 = Some c0"
    by (simp add: Compressor_ctor_def c0_def MOZ_ASSERT_def)
  have 1: "init release stub_zlib stub_zstd c0 = Some (True, c1)"
    by (simp add: init_def c0_def c1_def const_defs stub_defs)
  have 2: "setOutput release c1 (replicate 64 0) 64 = Some c2"
    by (simp add: setOutput_def c0_def c1_def c2_def const_defs MOZ_ASSERT_def
        to_uInt_def sub_size_t_def)
  have r: "running release stub_zlib stub_zstd [0x41] 1 ZSTD 0 c2"
    by (rule running.start [OF 0 _ 1 _ _ 2]) (simp_all add: c0_def c1_def const_defs)
  obtain c3 where 3: "compressMore release stub_zlib stub_zstd True c2 = Some (DONE, c3)"
    and f: "algorithm_m c3 = ZSTD" "level_m c3 = 0" "outbytes c3 = 15" "chunkOffsets c3 = [15]"
    by (simp add: c0_def c1_def c2_def step_defs const_defs stub_defs)
  from r 3 have "completed release stub_zlib stub_zstd [0x41] 1 ZSTD 0 c3"
    by (rule completed.last_step)
  with f show ?thesis by blast
qed

subsection \<open>The size of a step\<close>









subsection \<open>The output stays within the buffer\<close>






subsection \<open>Initialisation\<close>

lemma init_result:
  assumes "init cfg zl zd c = Some (r, c')"
  shows "r \<longleftrightarrow>
     inplen c < UINT32_MAX
     \<and> (algorithm_m c = ZLIB
          \<and> fst (deflateInit2 zl (if level_m c = 0
                                   then (if USE_LIBZ_RS cfg then 2 else Z_BEST_SPEED)
                                   else uint (level_m c))
                   Z_DEFLATED WindowBits 8 Z_DEFAULT_STRATEGY) = Z_OK
        \<or> algorithm_m c = ZSTD
          \<and> (\<exists>cs. ZSTD_createCStream zd = Some cs
                \<and> \<not> ZSTD_isError zd
                     (fst (ZSTD_initCStream zd cs (if level_m c = 0 then 3 else uint (level_m c))))))"
  using assms
  by (auto simp: init_def Let_def ZLIB_def ZSTD_def bind_eq_Some_conv
      split: if_splits option.splits prod.splits)

lemma init_None_iff:
  "init cfg zl zd c = None \<longleftrightarrow>
     DEBUG cfg \<and> inplen c < UINT32_MAX \<and> algorithm_m c = ZLIB
     \<and> fst (deflateInit2 zl (if level_m c = 0
                              then (if USE_LIBZ_RS cfg then 2 else Z_BEST_SPEED)
                              else uint (level_m c))
              Z_DEFLATED WindowBits 8 Z_DEFAULT_STRATEGY) \<notin> {Z_OK, Z_MEM_ERROR}"
proof (cases "inplen c < UINT32_MAX")
  case False
  then show ?thesis by (simp add: init_def)
next
  case lt: True
  show ?thesis
  proof (cases "algorithm_m c = ZLIB")
    case True
    obtain ret st where
      "deflateInit2 zl (if level_m c = 0
                              then (if USE_LIBZ_RS cfg then 2 else Z_BEST_SPEED)
                              else uint (level_m c))
              Z_DEFLATED WindowBits 8 Z_DEFAULT_STRATEGY = (ret, st)"
      by (cases "deflateInit2 zl (if level_m c = 0
                              then (if USE_LIBZ_RS cfg then 2 else Z_BEST_SPEED)
                              else uint (level_m c))
              Z_DEFLATED WindowBits 8 Z_DEFAULT_STRATEGY")
    with True lt show ?thesis
      by (simp add: init_def Let_def MOZ_ASSERT_def)
  next
    case False
    with lt show ?thesis
      by (auto simp: init_def Let_def split: option.splits prod.splits)
  qed
qed

subsection \<open>The whole-blob decoder\<close>

lemma DecompressString_short:
  assumes "inbuflen \<le> UINT32_MAX" "inbuflen < sizeof_CompressedDataHeader"
  shows "DecompressString cfg zl zd inbuf inbuflen out outlen = Some (False, out)"
  using assms by (simp add: DecompressString_def MOZ_ASSERT_def)

lemma DecompressString_unknown:
  assumes "inbuflen \<le> UINT32_MAX" "sizeof_CompressedDataHeader \<le> inbuflen"
    "read_header inbuf = Some h" "algorithm h \<noteq> ZLIB" "algorithm h \<noteq> ZSTD"
  shows "DecompressString cfg zl zd inbuf inbuflen out outlen = Some (False, out)"
  using assms by (simp add: DecompressString_def MOZ_ASSERT_def)

lemma DecompressString_zstd:
  assumes "inbuflen \<le> UINT32_MAX" "sizeof_CompressedDataHeader \<le> inbuflen"
    "read_header inbuf = Some h" "algorithm h = ZSTD"
    "inbuflen \<le> length inbuf" "outlen \<le> length out"
    "ZSTD_decompress zd outlen (take inbuflen inbuf) = (result, produced)"
    "length produced \<le> outlen"
  shows "DecompressString cfg zl zd inbuf inbuflen out outlen
           = Some (\<not> ZSTD_isError zd result \<and> result = outlen,
                   produced @ drop (length produced) out)"
  using assms by (simp add: DecompressString_def MOZ_ASSERT_def load_def store_def)

lemma DecompressString_zlib_init:
  assumes "inbuflen \<le> UINT32_MAX" "sizeof_CompressedDataHeader \<le> inbuflen"
    "read_header inbuf = Some h" "algorithm h = ZLIB"
    "inbuflen \<le> length inbuf"
    "inflateInit zl = (ret, st)" "ret \<noteq> Z_OK"
  shows "DecompressString cfg zl zd inbuf inbuflen out outlen
           = (if DEBUG cfg \<and> (outlen = 0 \<or> ret \<noteq> Z_MEM_ERROR) then None
              else Some (False, out))"
proof -
  have "to_uInt inbuflen = inbuflen"
    using assms(1) by (intro to_uInt_eq) (simp add: UINT32_MAX_def)
  then show ?thesis
    using assms by (simp add: DecompressString_def MOZ_ASSERT_def load_def)
qed

lemma DecompressString_zlib_inflate:
  assumes "inbuflen \<le> UINT32_MAX" "sizeof_CompressedDataHeader \<le> inbuflen"
    "read_header inbuf = Some h" "algorithm h = ZLIB"
    "inbuflen \<le> length inbuf" "outlen \<le> length out" "outlen < 2 ^ 32"
    "inflateInit zl = (Z_OK, st)"
    "inflate zl st (take inbuflen inbuf) outlen Z_FINISH = (ret, consumed, produced, st')"
    "consumed \<le> inbuflen" "length produced \<le> outlen"
  shows "DecompressString cfg zl zd inbuf inbuflen out outlen
           = (if DEBUG cfg \<and> (outlen = 0 \<or> ret \<noteq> Z_STREAM_END \<or> inflateEnd zl st' \<noteq> Z_OK)
              then None
              else Some (True, produced @ drop (length produced) out))"
proof -
  have "to_uInt inbuflen = inbuflen"
    using assms(1) by (intro to_uInt_eq) (simp add: UINT32_MAX_def)
  moreover have "to_uInt outlen = outlen"
    using assms(7) by (rule to_uInt_eq)
  ultimately show ?thesis
    using assms
    by (simp add: DecompressString_def MOZ_ASSERT_def load_def store_def call_inflate_def)
qed

subsection \<open>Claims about the container\<close>



text \<open>
  Claim C3. Header integrity, as the code has it: for every completed compression, the
  header that \<^verbatim>\<open>finish\<close> writes holds the constructor's algorithm and level, and its
  \<open>compressedBytes\<close> field holds the final \<open>outbytes\<close> itself (cut to 32 bits), which
  counts the header's eight bytes as well as the payload. The field is not
  \<open>outbytes - sizeof(Header)\<close>.
\<close>

theorem finish_header_fields:
  assumes "completed cfg zl zd input n alg lvl c"
    and "finish cfg c dest k = Some (dest', c')"
  shows "read_header dest' = Some \<lparr>compressedBytes = word_of_nat (outbytes c),
            algorithm = alg, level = lvl, reserved = 0\<rparr>"
  using finish_header [OF assms(2)] completed_accounting [OF assms(1)] by simp

theorem finish_header_fields_witness:
  "completed release stub_zlib stub_zstd [0x41] 1 ZLIB 0 zlib_example
   \<and> finish release zlib_example (take 16 (out_mem zlib_example)) 16
       = Some (zlib_example_container, zlib_example\<lparr>finished := True\<rparr>)
   \<and> read_header zlib_example_container
       = Some \<lparr>compressedBytes = word_of_nat (outbytes zlib_example),
               algorithm = ZLIB, level = 0, reserved = 0\<rparr>"
  using finish_header_fields [OF zlib_example_completed zlib_example_finish]
    zlib_example_completed zlib_example_finish by simp

text \<open>The one-byte example: the container has three payload bytes, so
  \<open>outbytes - sizeof(Header)\<close> is 3, and the header field reads 11.\<close>

theorem header_counts_itself:
  "completed release stub_zlib stub_zstd [0x41] 1 ZLIB 0 zlib_example
   \<and> finish release zlib_example (take 16 (out_mem zlib_example)) 16
       = Some (zlib_example_container, zlib_example\<lparr>finished := True\<rparr>)
   \<and> outbytes zlib_example - sizeof_CompressedDataHeader = 3
   \<and> map_option (\<lambda>h. unat (compressedBytes h)) (read_header zlib_example_container)
       = Some 11"
  using zlib_example_completed zlib_example_finish
  by (simp add: zlib_example_header) (simp add: zlib_example_def sizeof_CompressedDataHeader_def)

text \<open>
  Claim C8. The chunk offsets of a completed compression whose \<open>outbytes\<close> fits 32
  bits, with libraries that keep the rules above. There are \<open>\<lceil>n / CHUNK_SIZE\<rceil>\<close>
  offsets, and \<^verbatim>\<open>finish\<close> writes them as the table of the container. The first is
  greater than the header size and each is greater than the one before. The last one
  equals the header's \<open>compressedBytes\<close>, which is the final \<open>outbytes\<close>; it is not
  \<open>sizeof(Header) + compressedBytes\<close>.
\<close>

theorem offset_table_invariants:
  assumes run: "completed cfg zl zd input n alg lvl c"
    and fin: "finish cfg c dest k = Some (dest', c')"
    and fit: "outbytes c < 2 ^ 32"
    and zlp: "alg = ZLIB \<longrightarrow> zlib_progress zl pz"
    and zsp: "alg = ZSTD \<longrightarrow> zstd_progress zd ps"
  shows "length (chunkOffsets c) = (n + CHUNK_SIZE - 1) div CHUNK_SIZE
     \<and> (\<forall>i < length (chunkOffsets c).
           load_u32 dest' (AlignBytes (outbytes c) 4 + 4 * i) = Some (chunkOffsets c ! i))
     \<and> sizeof_CompressedDataHeader < unat (chunkOffsets c ! 0)
     \<and> (\<forall>i. Suc i < length (chunkOffsets c)
            \<longrightarrow> chunkOffsets c ! i < chunkOffsets c ! Suc i)
     \<and> (\<exists>h. read_header dest' = Some h
            \<and> chunkOffsets c ! (length (chunkOffsets c) - 1) = compressedBytes h
            \<and> unat (compressedBytes h) = outbytes c)"
proof -
  let ?h = sizeof_CompressedDataHeader
  let ?O = "chunkOffsets c"
  from completed_accounting [OF run] have len: "length ?O = (n - 1) div CHUNK_SIZE + 1"
    and ge: "?h \<le> outbytes c"
    by simp_all
  from completed_progress [OF run zlp zsp] obtain ks where
    ks: "?O = map word_of_nat ks" and so: "sorted_wrt (<) (?h # ks)"
    and la: "last (?h # ks) = outbytes c"
    by blast
  from ks len have lk: "length ks = length ?O" and ne: "ks \<noteq> []" by auto
  have bound: "?h < ks ! i \<and> ks ! i < 2 ^ 32" if "i < length ks" for i
  proof -
    from that have "ks ! i \<in> set ks" by simp
    from sorted_wrt_bounds [OF so this] la fit show ?thesis by simp
  qed
  have un: "unat (?O ! i) = ks ! i" if "i < length ks" for i
    using that bound [OF that] ks by (simp add: unat_word_of_nat32)
  have 1: "length ?O = (n + CHUNK_SIZE - 1) div CHUNK_SIZE"
    using len ceil_div_chunk [OF completed_positive [OF run]] by simp
  have 2: "\<forall>i < length ?O. load_u32 dest' (AlignBytes (outbytes c) 4 + 4 * i) = Some (?O ! i)"
    using finish_offsets [OF fin] by blast
  have 3: "?h < unat (?O ! 0)"
    using un [of 0] bound [of 0] ne by simp
  have 4: "\<forall>i. Suc i < length ?O \<longrightarrow> ?O ! i < ?O ! Suc i"
  proof (intro allI impI)
    fix i assume i: "Suc i < length ?O"
    then have "Suc i < length ks" "i < length ks" using lk by simp_all
    moreover from so have "sorted_wrt (<) ks" by simp
    then have "ks ! i < ks ! Suc i" using \<open>Suc i < length ks\<close>
      by (simp add: sorted_wrt_nth_less)
    ultimately show "?O ! i < ?O ! Suc i"
      using un [of i] un [of "Suc i"] by (simp add: word_less_nat_alt)
  qed
  have "last ks = outbytes c" using la ne by simp
  moreover have "?O ! (length ?O - 1) = word_of_nat (last ks)"
    unfolding ks using ne by (simp add: last_conv_nth)
  ultimately have e: "?O ! (length ?O - 1) = word_of_nat (outbytes c)"
    by simp
  have 5: "\<exists>h. read_header dest' = Some h \<and> ?O ! (length ?O - 1) = compressedBytes h
            \<and> unat (compressedBytes h) = outbytes c"
  proof (intro exI conjI)
    show "read_header dest' = Some \<lparr>compressedBytes = word_of_nat (outbytes c),
        algorithm = algorithm_m c, level = level_m c, reserved = 0\<rparr>"
      using fin ge by (rule finish_header)
    show "?O ! (length ?O - 1) = compressedBytes \<lparr>compressedBytes = word_of_nat (outbytes c),
        algorithm = algorithm_m c, level = level_m c, reserved = 0\<rparr>"
      using e by simp
    show "unat (compressedBytes \<lparr>compressedBytes = word_of_nat (outbytes c),
        algorithm = algorithm_m c, level = level_m c, reserved = 0\<rparr>) = outbytes c"
      using unat_word_of_nat32 [OF fit] by simp
  qed
  from 1 2 3 4 5 show ?thesis by (simp only: simp_thms)
qed

theorem offset_table_invariants_witness:
  "completed release stub_zlib stub_zstd [0x41] 1 ZLIB 0 zlib_example
   \<and> finish release zlib_example (take 16 (out_mem zlib_example)) 16
       = Some (zlib_example_container, zlib_example\<lparr>finished := True\<rparr>)
   \<and> outbytes zlib_example < 2 ^ 32
   \<and> zlib_progress stub_zlib (\<lambda>st. length (fst st) + length (fst (snd st)))
   \<and> length (chunkOffsets zlib_example) = (1 + CHUNK_SIZE - 1) div CHUNK_SIZE
   \<and> sizeof_CompressedDataHeader < unat (chunkOffsets zlib_example ! 0)
   \<and> (\<exists>h. read_header zlib_example_container = Some h
          \<and> chunkOffsets zlib_example ! (length (chunkOffsets zlib_example) - 1)
              = compressedBytes h)
   \<and> (\<exists>c dest' c'. completed release stub_zlib stub_zstd [0x41] 1 ZSTD 0 c
          \<and> finish release c
              [0, 0, 0, 0, 0, 0, 0, 0, 0, 0, 0, 0, 0, 0, 0, 0, 0, 0, 0, 0] 20 = Some (dest', c')
          \<and> outbytes c < 2 ^ 32
          \<and> zstd_progress stub_zstd (\<lambda>cs. length (fst cs))
          \<and> length (chunkOffsets c) = (1 + CHUNK_SIZE - 1) div CHUNK_SIZE
          \<and> sizeof_CompressedDataHeader < unat (chunkOffsets c ! 0)
          \<and> (\<exists>h. read_header dest' = Some h
                 \<and> chunkOffsets c ! (length (chunkOffsets c) - 1) = compressedBytes h))"
proof -
  have fit: "outbytes zlib_example < 2 ^ 32" by (simp add: zlib_example_def)
  have zs: "ZLIB = ZSTD \<longrightarrow> zstd_progress stub_zstd (\<lambda>cs. length (fst cs))" by simp
  have zl: "ZLIB = ZLIB \<longrightarrow> zlib_progress stub_zlib (\<lambda>st. length (fst st) + length (fst (snd st)))"
    using stub_zlib_progress by simp
  note a = offset_table_invariants [OF zlib_example_completed zlib_example_finish fit zl zs]
  from a have a1: "length (chunkOffsets zlib_example) = (1 + CHUNK_SIZE - 1) div CHUNK_SIZE"
    and a2: "sizeof_CompressedDataHeader < unat (chunkOffsets zlib_example ! 0)"
    and a3: "\<exists>h. read_header zlib_example_container = Some h
          \<and> chunkOffsets zlib_example ! (length (chunkOffsets zlib_example) - 1)
              = compressedBytes h"
    by blast+
  from zstd_example_completed obtain c where
    r: "completed release stub_zlib stub_zstd [0x41] 1 ZSTD 0 c"
    and f: "algorithm_m c = ZSTD" "level_m c = 0" "outbytes c = 15" "chunkOffsets c = [15]"
    by blast
  have fin: "finish release c
              [0, 0, 0, 0, 0, 0, 0, 0, 0, 0, 0, 0, 0, 0, 0, 0, 0, 0, 0, 0] 20
      = Some ([15, 0, 0, 0, 1, 0, 0, 0, 0, 0, 0, 0, 0, 0, 0, 0, 15, 0, 0, 0],
              c\<lparr>finished := True\<rparr>)"
    using f by (simp add: finish_defs release_def ZSTD_def)
  have fit': "outbytes c < 2 ^ 32" using f by simp
  have zl': "ZSTD = ZLIB \<longrightarrow> zlib_progress stub_zlib (\<lambda>st. length (fst st) + length (fst (snd st)))" by simp
  have zs': "ZSTD = ZSTD \<longrightarrow> zstd_progress stub_zstd (\<lambda>cs. length (fst cs))"
    using stub_zstd_progress by simp
  note b = offset_table_invariants [OF r fin fit' zl' zs']
  from b have b1: "length (chunkOffsets c) = (1 + CHUNK_SIZE - 1) div CHUNK_SIZE"
    and b2: "sizeof_CompressedDataHeader < unat (chunkOffsets c ! 0)"
    and b3: "\<exists>h. read_header [15, 0, 0, 0, 1, 0, 0, 0, 0, 0, 0, 0, 0, 0, 0, 0, 15, 0, 0, 0]
                = Some h
          \<and> chunkOffsets c ! (length (chunkOffsets c) - 1) = compressedBytes h"
    by blast+
  have z: "\<exists>c dest' c'. completed release stub_zlib stub_zstd [0x41] 1 ZSTD 0 c
          \<and> finish release c
              [0, 0, 0, 0, 0, 0, 0, 0, 0, 0, 0, 0, 0, 0, 0, 0, 0, 0, 0, 0] 20 = Some (dest', c')
          \<and> outbytes c < 2 ^ 32
          \<and> zstd_progress stub_zstd (\<lambda>cs. length (fst cs))
          \<and> length (chunkOffsets c) = (1 + CHUNK_SIZE - 1) div CHUNK_SIZE
          \<and> sizeof_CompressedDataHeader < unat (chunkOffsets c ! 0)
          \<and> (\<exists>h. read_header dest' = Some h
                 \<and> chunkOffsets c ! (length (chunkOffsets c) - 1) = compressedBytes h)"
    by (rule exI [of _ c],
        rule exI [of _ "[15, 0, 0, 0, 1, 0, 0, 0, 0, 0, 0, 0, 0, 0, 0, 0, 15, 0, 0, 0]"],
        rule exI [of _ "c\<lparr>finished := True\<rparr>"])
       (use r fin fit' stub_zstd_progress b1 b2 b3 in \<open>simp only: simp_thms\<close>)
  from zlib_example_completed zlib_example_finish fit stub_zlib_progress a1 a2 a3 z
  show ?thesis by (simp only: simp_thms)
qed

text \<open>The one-byte example: the last offset is 11, \<open>sizeof(Header) + compressedBytes\<close>
  is 19.\<close>

theorem last_offset_is_compressedBytes:
  "completed release stub_zlib stub_zstd [0x41] 1 ZLIB 0 zlib_example
   \<and> finish release zlib_example (take 16 (out_mem zlib_example)) 16
       = Some (zlib_example_container, zlib_example\<lparr>finished := True\<rparr>)
   \<and> unat (chunkOffsets zlib_example ! (length (chunkOffsets zlib_example) - 1)) = 11
   \<and> map_option (\<lambda>h. sizeof_CompressedDataHeader + unat (compressedBytes h))
        (read_header zlib_example_container) = Some 19"
  using zlib_example_completed zlib_example_finish
  by (simp add: zlib_example_header) (simp add: zlib_example_def sizeof_CompressedDataHeader_def)

subsection \<open>Claims about initialisation\<close>

text \<open>
  Claim C6. When \<^verbatim>\<open>init\<close> returns true and when it returns false. It returns true
  exactly when the input length is below \<open>UINT32_MAX\<close> (that is \<open>2^32 - 1\<close>, not
  \<open>2^32\<close>), and either the algorithm is zlib and \<^verbatim>\<open>deflateInit2\<close> returns \<^verbatim>\<open>Z_OK\<close>,
  or the algorithm is zstd, the stream is created and \<^verbatim>\<open>ZSTD_initCStream\<close> reports no
  error. It returns false exactly when the length is at least \<open>UINT32_MAX\<close>, or the
  zlib initialisation fails (in a debug build: fails with \<^verbatim>\<open>Z_MEM_ERROR\<close>, any other
  failure stops at the assertion), or the zstd stream cannot be created or initialised,
  or the algorithm is neither zlib nor zstd.
\<close>

theorem init_true_false_exactly_when:
  fixes zl :: "('d, 'i) zlib_api" and zd :: "'c zstd_api" and c :: "('d, 'c) Compressor"
  shows
  "((\<exists>c'. init cfg zl zd c = Some (True, c')) \<longleftrightarrow>
      inplen c < UINT32_MAX
      \<and> (algorithm_m c = ZLIB
           \<and> fst (deflateInit2 zl (if level_m c = 0
                                    then (if USE_LIBZ_RS cfg then 2 else Z_BEST_SPEED)
                                    else uint (level_m c))
                    Z_DEFLATED WindowBits 8 Z_DEFAULT_STRATEGY) = Z_OK
         \<or> algorithm_m c = ZSTD
           \<and> (\<exists>cs. ZSTD_createCStream zd = Some cs
                 \<and> \<not> ZSTD_isError zd
                      (fst (ZSTD_initCStream zd cs
                             (if level_m c = 0 then 3 else uint (level_m c)))))))
   \<and> ((\<exists>c'. init cfg zl zd c = Some (False, c')) \<longleftrightarrow>
      UINT32_MAX \<le> inplen c
      \<or> algorithm_m c = ZLIB
         \<and> fst (deflateInit2 zl (if level_m c = 0
                                  then (if USE_LIBZ_RS cfg then 2 else Z_BEST_SPEED)
                                  else uint (level_m c))
                  Z_DEFLATED WindowBits 8 Z_DEFAULT_STRATEGY) \<noteq> Z_OK
         \<and> (DEBUG cfg \<longrightarrow>
               fst (deflateInit2 zl (if level_m c = 0
                                     then (if USE_LIBZ_RS cfg then 2 else Z_BEST_SPEED)
                                     else uint (level_m c))
                     Z_DEFLATED WindowBits 8 Z_DEFAULT_STRATEGY) = Z_MEM_ERROR)
      \<or> algorithm_m c = ZSTD
         \<and> (\<forall>cs. ZSTD_createCStream zd = Some cs
               \<longrightarrow> ZSTD_isError zd
                     (fst (ZSTD_initCStream zd cs
                            (if level_m c = 0 then 3 else uint (level_m c)))))
      \<or> algorithm_m c \<noteq> ZLIB \<and> algorithm_m c \<noteq> ZSTD)"
proof -
  let ?ret = "fst (deflateInit2 zl (if level_m c = 0
                                    then (if USE_LIBZ_RS cfg then 2 else Z_BEST_SPEED)
                                    else uint (level_m c))
                    Z_DEFLATED WindowBits 8 Z_DEFAULT_STRATEGY)"
  let ?zstd_ok = "\<exists>cs. ZSTD_createCStream zd = Some cs
                 \<and> \<not> ZSTD_isError zd
                      (fst (ZSTD_initCStream zd cs
                             (if level_m c = 0 then 3 else uint (level_m c))))"
  let ?good = "inplen c < UINT32_MAX
      \<and> (algorithm_m c = ZLIB \<and> ?ret = Z_OK \<or> algorithm_m c = ZSTD \<and> ?zstd_ok)"
  have res: "r \<longleftrightarrow> ?good" if "init cfg zl zd c = Some (r, c')" for r c'
    using init_result [OF that] .
  have none: "init cfg zl zd c = None \<longleftrightarrow>
     DEBUG cfg \<and> inplen c < UINT32_MAX \<and> algorithm_m c = ZLIB \<and> ?ret \<notin> {Z_OK, Z_MEM_ERROR}"
    by (rule init_None_iff)
  show ?thesis
  proof (cases "init cfg zl zd c")
    case None
    with none show ?thesis by auto
  next
    case (Some p)
    obtain r c' where p: "p = (r, c')" by (cases p)
    from Some p have eq: "init cfg zl zd c = Some (r, c')" by simp
    from none eq have nn: "\<not> (DEBUG cfg \<and> inplen c < UINT32_MAX \<and> algorithm_m c = ZLIB
        \<and> ?ret \<notin> {Z_OK, Z_MEM_ERROR})" by simp
    from res [OF eq] have r: "r \<longleftrightarrow> ?good" .
    show ?thesis
    proof (cases r)
      case True
      with r eq show ?thesis by auto
    next
      case False
      with r have ng: "\<not> ?good" by simp
      from False eq have "\<exists>c'. init cfg zl zd c = Some (False, c')" by simp
      moreover have "\<not> (\<exists>c'. init cfg zl zd c = Some (True, c'))" using False eq by simp
      ultimately show ?thesis using ng nn by (simp (no_asm_simp)) (use ng nn in auto)
    qed
  qed
qed

theorem init_true_false_exactly_when_witness:
  "\<exists>c0 c'. Compressor_ctor release [0x41] 1 ZLIB 0 = Some c0
     \<and> init release stub_zlib stub_zstd c0 = Some (True, c')"
proof -
  define c0 :: "(stub_deflate_state, byte list \<times> bool \<times> bool) Compressor" where
    "c0 = \<lparr>algorithm_m = ZLIB, level_m = 0, inp = [0x41], inplen = 1,
           initialized = False, finished = False, currentChunkSize = 0,
           outbytes = sizeof_CompressedDataHeader, chunkOffsets = [],
           zs_next_in = 0, zs_avail_in = 0, zs_next_out = None, zs_avail_out = 0,
           zs_state = None, zstdCStream = None,
           zstdOutput_dst = 0, zstdOutput_size = 0, zstdOutput_pos = 0,
           zstdInputPos = 0, out_mem = []\<rparr>"
  have 0: "Compressor_ctor release [0x41] 1 ZLIB 0 = Some c0"
    by (simp add: Compressor_ctor_def c0_def MOZ_ASSERT_def)
  have "\<exists>c'. init release stub_zlib stub_zstd c0 = Some (True, c')"
    using init_true_false_exactly_when [of release stub_zlib stub_zstd c0]
    by (simp add: c0_def const_defs stub_defs)
  with 0 show ?thesis by blast
qed

text \<open>An input of \<open>2^32 - 1\<close> bytes is shorter than \<open>2^32\<close>, the algorithm is zlib and
  the library initialises; \<^verbatim>\<open>init\<close> returns false.\<close>

theorem init_rejects_below_two_to_32:
  "(1::nat) \<le> 4294967295 \<and> (4294967295::nat) < 2 ^ 32
   \<and> fst (deflateInit2 stub_zlib Z_BEST_SPEED Z_DEFLATED WindowBits 8 Z_DEFAULT_STRATEGY) = Z_OK
   \<and> (\<exists>c0. Compressor_ctor release (replicate 4294967295 0x41) 4294967295 ZLIB 0 = Some c0
         \<and> init release stub_zlib
              (stub_zstd :: (byte list \<times> bool \<times> bool) zstd_api) c0 = Some (False, c0))"
  by (simp add: Compressor_ctor_def init_def MOZ_ASSERT_def release_def UINT32_MAX_def
      stub_zlib_def stub_deflateInit2_def Z_OK_def Z_BEST_SPEED_def)

subsection \<open>Claims about the steps\<close>

text \<open>
  Claim C5. What the zstd step returns when it is the last one. The claim has \<open>DONE\<close>
  only once \<^verbatim>\<open>ZSTD_endStream\<close> returned 0, and \<open>MOREOUTPUT\<close> when the output buffer is
  full. The code tests the full buffer only when the step is not the last
  (\<^verbatim>\<open>zstdOutput.pos == zstdOutput.size && !done\<close>) and ends in
  \<^verbatim>\<open>return done ? DONE : CONTINUE\<close>, so a last step returns \<open>DONE\<close> (or \<open>OOM\<close>) whatever
  \<^verbatim>\<open>ZSTD_endStream\<close> returned, and never \<open>MOREOUTPUT\<close>.
\<close>

theorem zstd_last_step_is_done:
  assumes "compressMoreZstd_plan cfg c = Some (n, flush, True)"
    and "compressMoreZstd cfg zd ok c = Some (st, c')"
  shows "st = DONE \<or> st = OOM"
proof -
  from compressMoreZstd_Some [OF assms(2)] assms(1)
  consider "st = OOM"
    | ret2 ipos c2 where
      "compressMoreZstd_tail cfg zd ok True flush (zstdOutput_pos c) ret2 ipos c2 = Some (st, c')"
    by auto
  then show ?thesis
  proof cases
    case 1
    then show ?thesis by simp
  next
    case 2
    then show ?thesis by (rule compressMoreZstd_tail_done)
  qed
qed

text \<open>The one-byte input with one byte of room: \<^verbatim>\<open>ZSTD_endStream\<close> returns 6 (bytes
  still to flush) with the buffer full, and the step returns \<open>DONE\<close> with one byte of
  payload.\<close>

theorem zstd_last_step_is_done_witness:
  "running debug stub_zlib stub_zstd [0x41] 1 ZSTD 0 zstd_tight_example
   \<and> compressMoreZstd_plan debug zstd_tight_example = Some (1, False, True)
   \<and> (\<exists>c1 c2. call_ZSTD_compressStream stub_zstd zstd_tight_example [0x41] = Some (0, 1, c1)
         \<and> call_ZSTD_endStream stub_zstd c1 = Some (6, c2)
         \<and> zstdOutput_pos c2 = zstdOutput_size c2)
   \<and> (\<exists>c'. compressMore debug stub_zlib stub_zstd True zstd_tight_example = Some (DONE, c')
         \<and> outbytes c' = 9 \<and> chunkOffsets c' = [9])"
proof -
  have p: "compressMoreZstd_plan debug zstd_tight_example = Some (1, False, True)"
    by (simp add: zstd_tight_example_def step_defs const_defs stub_defs)
  have r: "\<exists>c1 c2. call_ZSTD_compressStream stub_zstd zstd_tight_example [0x41] = Some (0, 1, c1)
         \<and> call_ZSTD_endStream stub_zstd c1 = Some (6, c2)
         \<and> zstdOutput_pos c2 = zstdOutput_size c2"
    by (simp add: zstd_tight_example_def step_defs const_defs stub_defs)
  obtain st c' where s: "compressMoreZstd debug stub_zstd True zstd_tight_example = Some (st, c')"
    and o: "outbytes c' = 9" "chunkOffsets c' = [9]" "st \<noteq> OOM"
    by (simp add: zstd_tight_example_def step_defs const_defs stub_defs)
  from zstd_last_step_is_done [OF p s] o have "st = DONE" by simp
  with s o have "\<exists>c'. compressMore debug stub_zlib stub_zstd True zstd_tight_example = Some (DONE, c')
         \<and> outbytes c' = 9 \<and> chunkOffsets c' = [9]"
    by (simp add: compressMore_def zstd_tight_example_def const_defs)
  with zstd_tight_example_running p r show ?thesis by blast
qed



subsection \<open>Claims about the decoders\<close>

text \<open>
  Claim C9. What the whole-blob decoder returns on malformed input, for an input that
  lies in memory and is no longer than \<open>UINT32_MAX\<close>. An input shorter than the header
  and an unknown algorithm tag give false; on the zstd arm, an error of
  \<^verbatim>\<open>ZSTD_decompress\<close> or a size other than the expected one gives false; on the zlib
  arm, a failed \<^verbatim>\<open>inflateInit\<close> gives false. The zlib arm does not keep the claim for
  a decode error: the result of \<^verbatim>\<open>inflate\<close> is only asserted
  (\<^verbatim>\<open>MOZ_ASSERT(ret == Z_STREAM_END)\<close>) and the decoded size is not compared, so
  whatever \<^verbatim>\<open>inflate\<close> returns, a release build returns true, and a debug build stops
  at the assertion unless it is \<^verbatim>\<open>Z_STREAM_END\<close>.
\<close>

theorem DecompressString_rejections:
  assumes "inbuflen \<le> UINT32_MAX" "inbuflen \<le> length inbuf"
    "outlen \<le> length out" "outlen < 2 ^ 32"
  shows
  "(inbuflen < sizeof_CompressedDataHeader
      \<longrightarrow> DecompressString cfg zl zd inbuf inbuflen out outlen = Some (False, out))
   \<and> (\<forall>h. sizeof_CompressedDataHeader \<le> inbuflen \<and> read_header inbuf = Some h \<longrightarrow>
        (algorithm h \<noteq> ZLIB \<and> algorithm h \<noteq> ZSTD
           \<longrightarrow> DecompressString cfg zl zd inbuf inbuflen out outlen = Some (False, out))
      \<and> (algorithm h = ZSTD \<longrightarrow>
           (\<forall>result produced.
              ZSTD_decompress zd outlen (take inbuflen inbuf) = (result, produced)
              \<and> length produced \<le> outlen \<and> (ZSTD_isError zd result \<or> result \<noteq> outlen)
              \<longrightarrow> (\<exists>out'. DecompressString cfg zl zd inbuf inbuflen out outlen
                             = Some (False, out'))))
      \<and> (algorithm h = ZLIB \<longrightarrow>
           (\<forall>ret st. inflateInit zl = (ret, st) \<longrightarrow>
              (ret \<noteq> Z_OK \<longrightarrow>
                 DecompressString cfg zl zd inbuf inbuflen out outlen
                   = (if DEBUG cfg \<and> (outlen = 0 \<or> ret \<noteq> Z_MEM_ERROR) then None
                      else Some (False, out)))
            \<and> (ret = Z_OK \<longrightarrow>
                 (\<forall>r consumed produced st'.
                    inflate zl st (take inbuflen inbuf) outlen Z_FINISH
                      = (r, consumed, produced, st')
                    \<and> consumed \<le> inbuflen \<and> length produced \<le> outlen
                    \<longrightarrow> DecompressString cfg zl zd inbuf inbuflen out outlen
                          = (if DEBUG cfg
                                \<and> (outlen = 0 \<or> r \<noteq> Z_STREAM_END \<or> inflateEnd zl st' \<noteq> Z_OK)
                             then None
                             else Some (True, produced @ drop (length produced) out)))))))"
proof (intro conjI allI impI; (elim conjE)?)
  assume "inbuflen < sizeof_CompressedDataHeader"
  with assms(1) show "DecompressString cfg zl zd inbuf inbuflen out outlen = Some (False, out)"
    by (rule DecompressString_short)
next
  fix h
  assume "sizeof_CompressedDataHeader \<le> inbuflen" "read_header inbuf = Some h"
    "algorithm h \<noteq> ZLIB" "algorithm h \<noteq> ZSTD"
  with assms(1) show "DecompressString cfg zl zd inbuf inbuflen out outlen = Some (False, out)"
    by (rule DecompressString_unknown)
next
  fix h result produced
  assume a: "sizeof_CompressedDataHeader \<le> inbuflen" "read_header inbuf = Some h"
    "algorithm h = ZSTD"
    "ZSTD_decompress zd outlen (take inbuflen inbuf) = (result, produced)"
    "length produced \<le> outlen" and b: "ZSTD_isError zd result \<or> result \<noteq> outlen"
  from DecompressString_zstd [where cfg = cfg and zl = zl, OF assms(1) a(1,2,3) assms(2,3) a(4,5)] b
  show "\<exists>out'. DecompressString cfg zl zd inbuf inbuflen out outlen = Some (False, out')"
    by auto
next
  fix h ret st
  assume a: "sizeof_CompressedDataHeader \<le> inbuflen" "read_header inbuf = Some h"
    "algorithm h = ZLIB" "inflateInit zl = (ret, st)" "ret \<noteq> Z_OK"
  from DecompressString_zlib_init [where cfg = cfg and zd = zd and out = out and outlen = outlen, OF assms(1) a(1,2,3) assms(2) a(4,5)]
  show "DecompressString cfg zl zd inbuf inbuflen out outlen
          = (if DEBUG cfg \<and> (outlen = 0 \<or> ret \<noteq> Z_MEM_ERROR) then None
             else Some (False, out))" .
next
  fix h ret st r consumed produced st'
  assume a: "sizeof_CompressedDataHeader \<le> inbuflen" "read_header inbuf = Some h"
    "algorithm h = ZLIB" "inflateInit zl = (ret, st)" "ret = Z_OK"
    "inflate zl st (take inbuflen inbuf) outlen Z_FINISH = (r, consumed, produced, st')"
    "consumed \<le> inbuflen" "length produced \<le> outlen"
  from a(4,5) have i: "inflateInit zl = (Z_OK, st)" by simp
  from DecompressString_zlib_inflate [where cfg = cfg and zd = zd, OF assms(1) a(1,2,3) assms(2,3,4) i a(6,7,8)]
  show "DecompressString cfg zl zd inbuf inbuflen out outlen
          = (if DEBUG cfg \<and> (outlen = 0 \<or> r \<noteq> Z_STREAM_END \<or> inflateEnd zl st' \<noteq> Z_OK)
             then None
             else Some (True, produced @ drop (length produced) out))" .
qed

theorem DecompressString_rejections_witness:
  "DecompressString release stub_zlib stub_zstd [1, 2, 3] 3 [0] 1 = Some (False, [0])
   \<and> DecompressString release stub_zlib stub_zstd [8, 0, 0, 0, 7, 0, 0, 0] 8 [0] 1
       = Some (False, [0])
   \<and> (\<exists>out'. DecompressString release stub_zlib stub_zstd [8, 0, 0, 0, 1, 0, 0, 0] 8 [0] 1
       = Some (False, out'))
   \<and> DecompressString release stub_zlib stub_zstd [0, 0, 0, 0, 0, 0, 0, 0] 8 [0] 1
       = Some (True, [0])
   \<and> DecompressString debug stub_zlib stub_zstd [0, 0, 0, 0, 0, 0, 0, 0] 8 [0] 1 = None"
proof -
  have a: "DecompressString release stub_zlib stub_zstd [1, 2, 3] 3 [0] 1 = Some (False, [0])"
    using DecompressString_rejections [where inbuflen = 3 and inbuf = "[1, 2, 3]"
        and outlen = 1 and out = "[0]" and cfg = release and zl = stub_zlib and zd = stub_zstd]
    by (simp add: const_defs)
  have b: "DecompressString release stub_zlib stub_zstd [8, 0, 0, 0, 7, 0, 0, 0] 8 [0] 1
       = Some (False, [0])"
    using DecompressString_rejections [where inbuflen = 8
        and inbuf = "[8, 0, 0, 0, 7, 0, 0, 0]"
        and outlen = 1 and out = "[0]" and cfg = release and zl = stub_zlib and zd = stub_zstd]
    by (simp add: const_defs read_header_def load_def)
  have c: "\<exists>out'. DecompressString release stub_zlib stub_zstd [8, 0, 0, 0, 1, 0, 0, 0] 8 [0] 1
       = Some (False, out')"
    using DecompressString_rejections [where inbuflen = 8
        and inbuf = "[8, 0, 0, 0, 1, 0, 0, 0]"
        and outlen = 1 and out = "[0]" and cfg = release and zl = stub_zlib and zd = stub_zstd]
    by (simp add: const_defs read_header_def load_def stub_defs)
  have d: "DecompressString release stub_zlib stub_zstd [0, 0, 0, 0, 0, 0, 0, 0] 8 [0] 1
       = Some (True, [0])"
    using DecompressString_rejections [where inbuflen = 8
        and inbuf = "[0, 0, 0, 0, 0, 0, 0, 0]"
        and outlen = 1 and out = "[0]" and cfg = release and zl = stub_zlib and zd = stub_zstd]
    by (simp add: const_defs read_header_def load_def stub_defs inflateInit_def)
  have e: "DecompressString debug stub_zlib stub_zstd [0, 0, 0, 0, 0, 0, 0, 0] 8 [0] 1 = None"
    using DecompressString_rejections [where inbuflen = 8
        and inbuf = "[0, 0, 0, 0, 0, 0, 0, 0]"
        and outlen = 1 and out = "[0]" and cfg = debug and zl = stub_zlib and zd = stub_zstd]
    by (simp add: const_defs read_header_def load_def stub_defs inflateInit_def)
  from a b c d e show ?thesis by blast
qed

text \<open>Eight zero bytes: the tag is zlib, \<^verbatim>\<open>inflate\<close> reports a data error; the release
  build returns true and the debug build stops.\<close>

theorem DecompressString_true_on_decode_error:
  "sizeof_CompressedDataHeader \<le> length [0, 0, 0, 0, 0, 0, 0, 0 :: byte]
   \<and> map_option algorithm (read_header [0, 0, 0, 0, 0, 0, 0, 0]) = Some ZLIB
   \<and> fst (inflate stub_zlib (snd (inflateInit stub_zlib)) [0, 0, 0, 0, 0, 0, 0, 0] 1 Z_FINISH)
       = Z_DATA_ERROR
   \<and> DecompressString release stub_zlib stub_zstd [0, 0, 0, 0, 0, 0, 0, 0] 8 [0] 1
       = Some (True, [0])
   \<and> DecompressString debug stub_zlib stub_zstd [0, 0, 0, 0, 0, 0, 0, 0] 8 [0] 1 = None"
  by (simp add: DecompressString_def call_inflate_def inflateInit_def read_header_def
      MOZ_ASSERT_def load_def store_def to_uInt_def const_defs stub_defs)

text \<open>
  Claim C4. The framing the two decoders ask of zlib. \<^verbatim>\<open>DecompressString\<close> calls
  \<^verbatim>\<open>inflateInit\<close>, that is window bits 15, a wrapped stream; \<^verbatim>\<open>DecompressStringChunk\<close>
  calls \<^verbatim>\<open>inflateInit2\<close> with \<open>WindowBits = -15\<close>, a raw stream. Stated without
  looking inside the library: the whole-blob decoder behaves the same with a library
  that initialises every inflater with window bits 15, the chunk decoder with one that
  initialises every inflater with window bits -15.
\<close>

theorem decoders_ask_for_different_framing:
  "DecompressString cfg zl zd inbuf inbuflen out outlen
     = DecompressString cfg (zl\<lparr>inflateInit2 := \<lambda>w. inflateInit2 zl DEF_WBITS\<rparr>) zd
         inbuf inbuflen out outlen
   \<and> DecompressStringChunk cfg zl zd inbuf chunk out outlen
     = DecompressStringChunk cfg (zl\<lparr>inflateInit2 := \<lambda>w. inflateInit2 zl WindowBits\<rparr>) zd
         inbuf chunk out outlen
   \<and> DEF_WBITS = 15 \<and> WindowBits = - 15"
  by (simp add: DecompressString_def DecompressStringChunk_def DecompressStringChunk_range_def
      inflateInit_def call_inflate_def
      DEF_WBITS_def WindowBits_def Let_def cong: if_cong)

text \<open>
  Claim C2. The whole-blob round trip on the one-byte input, with the stand-in
  libraries. The zlib container is not read back: the whole-blob decoder hands the
  container, header first, to a wrapped inflater, which reports an error; the release
  build returns true with the output untouched and the debug build stops at the
  assertion. The zstd container is handed to \<^verbatim>\<open>ZSTD_decompress\<close> header first as well,
  and the decoder returns false.
\<close>

theorem whole_blob_round_trip_fails:
  "compress 10 release stub_zlib stub_zstd 64 [0x41] ZLIB 0
     = Some [11, 0, 0, 0, 0, 0, 0, 0, 1, 0x41, 2, 0, 11, 0, 0, 0]
   \<and> DecompressString release stub_zlib stub_zstd
        [11, 0, 0, 0, 0, 0, 0, 0, 1, 0x41, 2, 0, 11, 0, 0, 0] 16 [0] 1 = Some (True, [0])
   \<and> DecompressString debug stub_zlib stub_zstd
        [11, 0, 0, 0, 0, 0, 0, 0, 1, 0x41, 2, 0, 11, 0, 0, 0] 16 [0] 1 = None
   \<and> compress 10 release stub_zlib stub_zstd 64 [0x41] ZSTD 0
     = Some [15, 0, 0, 0, 1, 0, 0, 0, 0x28, 0xB5, 0x2F, 0xFD, 1, 0x41, 2, 0, 15, 0, 0, 0]
   \<and> DecompressString release stub_zlib stub_zstd
        [15, 0, 0, 0, 1, 0, 0, 0, 0x28, 0xB5, 0x2F, 0xFD, 1, 0x41, 2, 0, 15, 0, 0, 0] 20 [0] 1
       = Some (False, [0])"
proof -
  have a: "compress 10 release stub_zlib stub_zstd 64 [0x41] ZLIB 0
     = Some [11, 0, 0, 0, 0, 0, 0, 0, 1, 0x41, 2, 0, 11, 0, 0, 0]"
    by (simp add: compress_def compress_run_def step_defs const_defs stub_defs drive_numeral
        finish_defs)
  have b: "DecompressString release stub_zlib stub_zstd
        [11, 0, 0, 0, 0, 0, 0, 0, 1, 0x41, 2, 0, 11, 0, 0, 0] 16 [0] 1 = Some (True, [0])"
    by (simp add: DecompressString_def call_inflate_def inflateInit_def read_header_def
      MOZ_ASSERT_def load_def store_def to_uInt_def const_defs stub_defs)
  have c: "DecompressString debug stub_zlib stub_zstd
        [11, 0, 0, 0, 0, 0, 0, 0, 1, 0x41, 2, 0, 11, 0, 0, 0] 16 [0] 1 = None"
    by (simp add: DecompressString_def call_inflate_def inflateInit_def read_header_def
      MOZ_ASSERT_def load_def store_def to_uInt_def const_defs stub_defs)
  have d: "compress 10 release stub_zlib stub_zstd 64 [0x41] ZSTD 0
     = Some [15, 0, 0, 0, 1, 0, 0, 0, 0x28, 0xB5, 0x2F, 0xFD, 1, 0x41, 2, 0, 15, 0, 0, 0]"
    by (simp add: compress_def compress_run_def step_defs const_defs stub_defs drive_numeral
        finish_defs)
  have e: "DecompressString release stub_zlib stub_zstd
        [15, 0, 0, 0, 1, 0, 0, 0, 0x28, 0xB5, 0x2F, 0xFD, 1, 0x41, 2, 0, 15, 0, 0, 0] 20 [0] 1
       = Some (False, [0])"
    by (simp add: DecompressString_def read_header_def
      MOZ_ASSERT_def load_def store_def to_uInt_def const_defs stub_defs)
  from a b c d e show ?thesis by (simp only: simp_thms)
qed

text \<open>
  Claim C1. The round trip of one chunk, on the one-byte input compressed with zstd into
  a buffer with one byte of room (the run of claim C5), with the stand-in libraries. The
  last step reports \<open>DONE\<close> with one byte of the frame written;
  \<^verbatim>\<open>DecompressStringChunk\<close> hands that byte to \<^verbatim>\<open>ZSTD_decompress\<close>, which reports an
  error, and returns false: chunk 0 does not come back.
\<close>

theorem chunk_round_trip_fails:
  "compress 10 debug stub_zlib stub_zstd 9 [0x41] ZSTD 0
     = Some [9, 0, 0, 0, 1, 0, 0, 0, 0x28, 0, 0, 0, 9, 0, 0, 0]
   \<and> DecompressStringChunk debug stub_zlib stub_zstd
        [9, 0, 0, 0, 1, 0, 0, 0, 0x28, 0, 0, 0, 9, 0, 0, 0] 0 [0] 1 = Some (False, [0])
   \<and> DecompressStringChunk release stub_zlib stub_zstd
        [9, 0, 0, 0, 1, 0, 0, 0, 0x28, 0, 0, 0, 9, 0, 0, 0] 0 [0] 1 = Some (False, [0])"
proof -
  have a: "compress 10 debug stub_zlib stub_zstd 9 [0x41] ZSTD 0
     = Some [9, 0, 0, 0, 1, 0, 0, 0, 0x28, 0, 0, 0, 9, 0, 0, 0]"
    by (simp add: compress_def compress_run_def step_defs const_defs stub_defs drive_numeral
        finish_defs replicate_3)
  have t: "DecompressStringChunk_table [9, 0, 0, 0, 1, 0, 0, 0, 0x28, 0, 0, 0, 9, 0, 0, 0] 0
      = Some (ZSTD, 9, 8, 9)"
    by (simp add: DecompressStringChunk_table_def read_header_def load_u32_def rd32_def rd16_def
        load_def AlignBytes_def const_defs)
  have b: "DecompressStringChunk cfg stub_zlib stub_zstd
        [9, 0, 0, 0, 1, 0, 0, 0, 0x28, 0, 0, 0, 9, 0, 0, 0] 0 [0] 1 = Some (False, [0])"
    if "cfg = debug \<or> cfg = release" for cfg
    using that unfolding DecompressStringChunk_def t
    by (auto simp: DecompressStringChunk_range_def
        MOZ_ASSERT_def MOZ_RELEASE_ASSERT_def load_def store_def
        const_defs stub_defs word_less_nat_alt)
  from a b [of debug] b [of release] show ?thesis by simp
qed

end
